theory Spec2Isabelle
  imports Main "HOL-Library.Mapping" "HOL-Library.AList_Mapping"
begin

section \<open>JavaScript values used by the runner\<close>

text \<open>
  Tokens are JavaScript strings, modelled as \<open>string\<close> (the UTF-8 bytes of the token; every
  delimiter the runner looks for is an ASCII character, so splitting bytes and splitting
  UTF-16 code units agree).  A number is an integer or \<open>NaN\<close>; values beyond
  \<open>2 ^ 53\<close> (where a double rounds) and the sign of zero are not represented.
  Reading \<open>args[i]\<close> past the end of the array gives \<open>undefined\<close>.
\<close>

datatype jsnum = NaN | Num int

datatype jsstr = Undefined | Str string

datatype error = TypeError

text \<open>\<open>a > b\<close> for an integer \<open>a\<close> and a number \<open>b\<close>: every comparison with \<open>NaN\<close> is false.\<close>

fun gtNum :: "int \<Rightarrow> jsnum \<Rightarrow> bool" where
  "gtNum a NaN = False"
| "gtNum a (Num b) = (b < a)"

section \<open>String operations\<close>

text \<open>\<open>s.startsWith(p)\<close>, \<open>s.endsWith(p)\<close>, \<open>s.includes(c)\<close> and \<open>s.split(c)\<close> for a one-character \<open>c\<close>.\<close>

definition startsWith :: "string \<Rightarrow> string \<Rightarrow> bool" where
  "startsWith s p = (take (length p) s = p)"

definition endsWith :: "string \<Rightarrow> string \<Rightarrow> bool" where
  "endsWith s p = (length p \<le> length s \<and> drop (length s - length p) s = p)"

definition includesChar :: "string \<Rightarrow> char \<Rightarrow> bool" where
  "includesChar s c = (c \<in> set s)"

text \<open>\<open>s.split(c)\<close> never returns an empty array: \<open>"".split(",")\<close> is \<open>[""]\<close>.\<close>

fun jsSplit :: "char \<Rightarrow> string \<Rightarrow> string list" where
  "jsSplit c [] = [[]]"
| "jsSplit c (x # xs) =
     (if x = c then [] # jsSplit c xs
      else (case jsSplit c xs of [] \<Rightarrow> [[x]] | p # ps \<Rightarrow> (x # p) # ps))"

section \<open>Pattern extraction\<close>

definition optionsWithValues :: "string list" where
  "optionsWithValues =
     [''-c'', ''--config'', ''--env'', ''--ext'', ''-f'', ''--format'',
      ''--parser'', ''--parser-options'', ''--resolve-plugins-relative-to'',
      ''--rulesdir'', ''--plugin'', ''--rule'', ''-o'', ''--output-file'',
      ''--ignore-path'', ''--max-warnings'', ''--cache-location'', ''--cache-strategy'']"

text \<open>
  The loop of \<open>extractPatterns\<close> over the tokens still to be read, with its two variables
  \<open>skipNext\<close> and \<open>patterns\<close>; it returns both as they stand when the loop ends.
\<close>

fun extractLoop :: "string list \<Rightarrow> bool \<Rightarrow> string list \<Rightarrow> string list \<times> bool" where
  "extractLoop [] skipNext patterns = (patterns, skipNext)"
| "extractLoop (arg # rest) skipNext patterns =
     (if skipNext then extractLoop rest False patterns
      else if startsWith arg ''-'' then
        extractLoop rest (arg \<in> set optionsWithValues) patterns
      else extractLoop rest False (patterns @ [arg]))"

definition extractPatterns :: "string list \<Rightarrow> string list" where
  "extractPatterns args =
     (let patterns = fst (extractLoop args False [])
      in if length patterns > 0 then patterns else [''.''])"

section \<open>Option classifier\<close>

definition SUPPORTED_FLAGS :: "string list" where
  "SUPPORTED_FLAGS =
     [''--fix'', ''--fix-dry-run'', ''--cache'', ''--no-cache'',
      ''--no-error-on-unmatched-pattern'']"

definition SUPPORTED_OPTIONS_WITH_VALUES :: "string list" where
  "SUPPORTED_OPTIONS_WITH_VALUES =
     [''-c'', ''--config'', ''--cache-location'', ''--cache-strategy'',
      ''--max-warnings'', ''-f'', ''--format'', ''--ext'', ''--rule'']"

text \<open>\<^verbatim>\<open>arg.includes("=") ? arg.split("=")[0] : arg\<close>\<close>

definition optionNameOf :: "string \<Rightarrow> string" where
  "optionNameOf arg = (if includesChar arg CHR ''='' then hd (jsSplit CHR ''='' arg) else arg)"

text \<open>
  The loop of \<open>findUnsupportedOptions\<close>; \<open>i + 1 < args.length\<close> says that a token is left
  after \<open>arg\<close>, and \<open>args[i + 1]\<close> is the first of them.
\<close>

fun findLoop :: "string list \<Rightarrow> bool \<Rightarrow> string list \<Rightarrow> string list" where
  "findLoop [] skipNext unsupported = unsupported"
| "findLoop (arg # rest) skipNext unsupported =
     (if skipNext then findLoop rest False unsupported
      else if \<not> startsWith arg ''-'' then findLoop rest False unsupported
      else
        let optionName = optionNameOf arg in
        if optionName \<in> set SUPPORTED_FLAGS then findLoop rest False unsupported
        else if optionName \<in> set SUPPORTED_OPTIONS_WITH_VALUES then
          findLoop rest (\<not> includesChar arg CHR ''='') unsupported
        else
          findLoop rest (rest \<noteq> [] \<and> \<not> startsWith (hd rest) ''-'')
            (unsupported @ [optionName]))"

definition findUnsupportedOptions :: "string list \<Rightarrow> string list" where
  "findUnsupportedOptions args = findLoop args False []"

section \<open>Exit code\<close>

text \<open>
  \<^verbatim>\<open>function calculateExitCode(errorCount, warningCount, maxWarnings: number | null)\<close>:
  \<open>None\<close> is \<open>null\<close>.
\<close>

definition calculateExitCode :: "int \<Rightarrow> int \<Rightarrow> jsnum option \<Rightarrow> int" where
  "calculateExitCode errorCount warningCount maxWarnings =
     (if errorCount > 0 then 1
      else if maxWarnings \<noteq> None \<and> gtNum warningCount (the maxWarnings) then 1
      else 0)"

section \<open>The classifier, in the words of its contract\<close>

text \<open>
  The contract of the option classifier, written as a walk over the tokens that needs
  neither a flag nor an accumulator: a token is option-like when it starts with a dash; its
  option name is the part before the first \<open>=\<close>; a supported option with a value, given
  without \<open>=\<close>, takes the next token whatever it is; an unsupported option is reported
  and takes the next token when that token is not option-like.
\<close>

definition isOptionToken :: "string \<Rightarrow> bool" where
  "isOptionToken t = (case t of [] \<Rightarrow> False | c # _ \<Rightarrow> c = CHR ''-'')"

definition nameBeforeEq :: "string \<Rightarrow> string" where
  "nameBeforeEq t = takeWhile (\<lambda>c. c \<noteq> CHR ''='') t"

definition inVocabulary :: "string \<Rightarrow> bool" where
  "inVocabulary n = (n \<in> set SUPPORTED_FLAGS \<or> n \<in> set SUPPORTED_OPTIONS_WITH_VALUES)"

definition takesValue :: "string \<Rightarrow> bool" where
  "takesValue t = (t \<in> set SUPPORTED_OPTIONS_WITH_VALUES)"

fun spec_unsupported :: "string list \<Rightarrow> string list" where
  "spec_unsupported [] = []"
| "spec_unsupported [t] =
     (if isOptionToken t \<and> \<not> inVocabulary (nameBeforeEq t) then [nameBeforeEq t] else [])"
| "spec_unsupported (t # v # rest) =
     (if \<not> isOptionToken t then spec_unsupported (v # rest)
      else if takesValue t then spec_unsupported rest
      else if inVocabulary (nameBeforeEq t) then spec_unsupported (v # rest)
      else nameBeforeEq t #
        (if isOptionToken v then spec_unsupported (v # rest) else spec_unsupported rest))"

text \<open>
  The patterns of a token sequence in the words of the contract of \<open>extractPatterns\<close>: the
  tokens that are neither option-like nor the value taken by a known option with a value.
\<close>

fun spec_patterns :: "string list \<Rightarrow> string list" where
  "spec_patterns [] = []"
| "spec_patterns [t] = (if isOptionToken t then [] else [t])"
| "spec_patterns (t # v # rest) =
     (if \<not> isOptionToken t then t # spec_patterns (v # rest)
      else if t \<in> set optionsWithValues then spec_patterns rest
      else spec_patterns (v # rest))"

section \<open>Option parsing\<close>

subsection \<open>\<open>parseInt(s, 10)\<close>\<close>

text \<open>
  \<open>parseInt\<close> with radix 10 skips leading white space, reads an optional sign and the longest
  run of decimal digits, and ignores what follows; with no digit it is \<open>NaN\<close>.  An argument
  that is \<open>undefined\<close> is first turned into the string \<open>"undefined"\<close>, so it gives \<open>NaN\<close>.
  \<open>trimStart\<close> removes the white space of the language: the ASCII characters TAB, LF, VT,
  FF, CR and SP, and the UTF-8 bytes of U+00A0, U+1680, U+2000 to U+200A, U+2028, U+2029,
  U+202F, U+205F, U+3000 and U+FEFF.  The model keeps the integer that the digits denote;
  JavaScript returns the nearest double, which is another number when the integer is above
  \<open>2^53\<close> in absolute value and cannot be represented (and \<open>Infinity\<close> beyond the range of
  doubles).
\<close>

definition asciiWhiteSpace :: "char list" where
  "asciiWhiteSpace = [CHR 0x09, CHR 0x0A, CHR 0x0B, CHR 0x0C, CHR 0x0D, CHR 0x20]"

definition unicodeWhiteSpace :: "string list" where
  "unicodeWhiteSpace =
     [[CHR 0xC2, CHR 0xA0], [CHR 0xE1, CHR 0x9A, CHR 0x80],
      [CHR 0xE2, CHR 0x80, CHR 0x80], [CHR 0xE2, CHR 0x80, CHR 0x81],
      [CHR 0xE2, CHR 0x80, CHR 0x82], [CHR 0xE2, CHR 0x80, CHR 0x83],
      [CHR 0xE2, CHR 0x80, CHR 0x84], [CHR 0xE2, CHR 0x80, CHR 0x85],
      [CHR 0xE2, CHR 0x80, CHR 0x86], [CHR 0xE2, CHR 0x80, CHR 0x87],
      [CHR 0xE2, CHR 0x80, CHR 0x88], [CHR 0xE2, CHR 0x80, CHR 0x89],
      [CHR 0xE2, CHR 0x80, CHR 0x8A], [CHR 0xE2, CHR 0x80, CHR 0xA8],
      [CHR 0xE2, CHR 0x80, CHR 0xA9], [CHR 0xE2, CHR 0x80, CHR 0xAF],
      [CHR 0xE2, CHR 0x81, CHR 0x9F], [CHR 0xE3, CHR 0x80, CHR 0x80],
      [CHR 0xEF, CHR 0xBB, CHR 0xBF]]"

fun trimStart :: "string \<Rightarrow> string" where
  "trimStart [] = []"
| "trimStart (c # cs) =
     (if c \<in> set asciiWhiteSpace then trimStart cs
      else if take 2 (c # cs) \<in> set unicodeWhiteSpace then trimStart (drop 1 cs)
      else if take 3 (c # cs) \<in> set unicodeWhiteSpace then trimStart (drop 2 cs)
      else c # cs)"

definition isDigit :: "char \<Rightarrow> bool" where
  "isDigit c = (c \<in> set ''0123456789'')"

definition digitValue :: "char \<Rightarrow> int" where
  "digitValue c = int (of_char c) - 48"

definition digitsValue :: "string \<Rightarrow> int" where
  "digitsValue ds = foldl (\<lambda>n c. 10 * n + digitValue c) 0 ds"

definition parseInt :: "jsstr \<Rightarrow> jsnum" where
  "parseInt x =
     (case x of
        Undefined \<Rightarrow> NaN
      | Str s \<Rightarrow>
          (let t = trimStart s;
               negative = startsWith t ''-'';
               u = (if startsWith t ''-'' \<or> startsWith t ''+'' then drop 1 t else t);
               ds = takeWhile isDigit u
           in if ds = [] then NaN
              else Num (if negative then - digitsValue ds else digitsValue ds)))"

subsection \<open>Rule values\<close>

text \<open>
  The configuration of a rule is \<open>unknown\<close> in the source: what \<open>JSON.parse\<close> returned, a
  severity number, or the string as it was given.  \<open>JSON.parse\<close> is a parameter of the model:
  \<open>None\<close> when it throws.
\<close>

datatype 'j ruleConfig = Structured 'j | Severity int | RawString string

text \<open>\<open>s.indexOf(c)\<close>: the index of the first \<open>c\<close>, or \<open>-1\<close>.\<close>

definition indexOf :: "string \<Rightarrow> char \<Rightarrow> int" where
  "indexOf s c = (if c \<in> set s then int (length (takeWhile (\<lambda>x. x \<noteq> c) s)) else - 1)"

text \<open>
  \<open>severityMap[configStr]\<close> on the object literal \<open>{ off: 0, warn: 1, error: 2 }\<close>: one of its
  own three numbers, a member inherited from \<open>Object.prototype\<close> (a function or an object,
  neither \<open>null\<close> nor \<open>undefined\<close>, so \<open>??\<close> keeps it, and \<open>isNaN\<close> of it is true), or
  \<open>undefined\<close>.
\<close>

datatype lookup = Own int | Inherited | Missing

definition objectPrototypeKeys :: "string list" where
  "objectPrototypeKeys =
     [''constructor'', ''__defineGetter__'', ''__defineSetter__'', ''hasOwnProperty'',
      ''__lookupGetter__'', ''__lookupSetter__'', ''isPrototypeOf'', ''propertyIsEnumerable'',
      ''toString'', ''valueOf'', ''__proto__'', ''toLocaleString'']"

definition severityMap :: "string \<Rightarrow> lookup" where
  "severityMap k =
     (if k = ''off'' then Own 0 else if k = ''warn'' then Own 1 else if k = ''error'' then Own 2
      else if k \<in> set objectPrototypeKeys then Inherited else Missing)"

definition parseRuleValue ::
  "(string \<Rightarrow> 'j option) \<Rightarrow> string \<Rightarrow> (string \<times> 'j ruleConfig) option" where
  "parseRuleValue jsonParse value =
     (let colonIndex = indexOf value CHR '':'' in
      if colonIndex = - 1 then None
      else
        let name = take (nat colonIndex) value;
            configStr = drop (nat (colonIndex + 1)) value
        in if startsWith configStr ''['' then
             (case jsonParse configStr of
                Some j \<Rightarrow> Some (name, Structured j)
              | None \<Rightarrow> Some (name, RawString configStr))
           else
             (case severityMap configStr of
                Own n \<Rightarrow> Some (name, Severity n)
              | Inherited \<Rightarrow> Some (name, RawString configStr)
              | Missing \<Rightarrow>
                  (case parseInt (Str configStr) of
                     NaN \<Rightarrow> Some (name, RawString configStr)
                   | Num n \<Rightarrow> Some (name, Severity n))))"

text \<open>
  The object \<open>rules\<close> is a finite mapping from rule names to configurations.
  \<open>rules[name] = config\<close> on the object literal \<open>{}\<close>:  the key \<open>__proto__\<close> is the accessor
  of \<open>Object.prototype\<close>: assigning to it sets the prototype (or does nothing, for a number
  or a string) and creates no property, so \<open>Object.keys(rules)\<close> never holds it.
\<close>

definition assignRule ::
  "(string, 'j ruleConfig) mapping \<Rightarrow> string \<Rightarrow> 'j ruleConfig \<Rightarrow>
     (string, 'j ruleConfig) mapping" where
  "assignRule rules name config =
     (if name = ''__proto__'' then rules else Mapping.update name config rules)"

subsection \<open>\<open>parseESLintOptions\<close>\<close>

text \<open>
  \<open>ESLint.Options\<close> as far as the runner writes it: a property that was never assigned is
  \<open>None\<close>.  \<open>fix_flag\<close> is the property \<open>fix\<close>.
\<close>

record 'j ESLintOptions =
  fix_flag :: "bool option"
  overrideConfigFile :: "jsstr option"
  cache :: "bool option"
  cacheLocation :: "jsstr option"
  cacheStrategy :: "jsstr option"
  errorOnUnmatchedPattern :: "bool option"
  overrideConfig :: "(string, 'j ruleConfig) mapping option"

record 'j ParsedOptions =
  eslintOptions :: "'j ESLintOptions"
  maxWarnings :: "jsnum option"
  format :: jsstr
  extensions :: "string list"

text \<open>The variables of \<open>parseESLintOptions\<close>: those it returns, and \<open>rules\<close>.\<close>

record 'j parseVars = "'j ParsedOptions" +
  rules :: "(string, 'j ruleConfig) mapping"

definition DEFAULT_EXTENSIONS :: "string list" where
  "DEFAULT_EXTENSIONS =
     [''.js'', ''.jsx'', ''.ts'', ''.tsx'', ''.mjs'', ''.cjs'', ''.mts'', ''.cts'']"

definition initialVars :: "'j parseVars" where
  "initialVars =
     \<lparr>eslintOptions =
        \<lparr>fix_flag = None, overrideConfigFile = None, cache = None, cacheLocation = None,
         cacheStrategy = None, errorOnUnmatchedPattern = None, overrideConfig = None\<rparr>,
      maxWarnings = None, format = Str ''stylish'', extensions = [], rules = Mapping.empty\<rparr>"

text \<open>\<open>args[++i]\<close>, read from the tokens after \<open>arg\<close>.\<close>

definition nextArg :: "string list \<Rightarrow> jsstr" where
  "nextArg rest = (case rest of [] \<Rightarrow> Undefined | v # _ \<Rightarrow> Str v)"

definition normalizeExt :: "string \<Rightarrow> string" where
  "normalizeExt e = (if startsWith e ''.'' then e else ''.'' @ e)"

text \<open>
  The \<open>switch\<close> on one token.  The result says whether \<open>++i\<close> was executed, and gives the
  variables after the case; \<open>extArg.split\<close> and \<open>value.indexOf\<close> throw a \<open>TypeError\<close> on
  \<open>undefined\<close>.
\<close>

definition parseArg ::
  "(string \<Rightarrow> 'j option) \<Rightarrow> string \<Rightarrow> jsstr \<Rightarrow> 'j parseVars \<Rightarrow> error + (bool \<times> 'j parseVars)" where
  "parseArg jsonParse arg next st =
     (if arg = ''--fix'' then
        Inr (False, st\<lparr>eslintOptions := (eslintOptions st)\<lparr>fix_flag := Some True\<rparr>\<rparr>)
      else if arg = ''--fix-dry-run'' then
        Inr (False, st\<lparr>eslintOptions := (eslintOptions st)\<lparr>fix_flag := Some True\<rparr>\<rparr>)
      else if arg = ''-c'' \<or> arg = ''--config'' then
        Inr (True, st\<lparr>eslintOptions := (eslintOptions st)\<lparr>overrideConfigFile := Some next\<rparr>\<rparr>)
      else if arg = ''--cache'' then
        Inr (False, st\<lparr>eslintOptions := (eslintOptions st)\<lparr>cache := Some True\<rparr>\<rparr>)
      else if arg = ''--no-cache'' then
        Inr (False, st\<lparr>eslintOptions := (eslintOptions st)\<lparr>cache := Some False\<rparr>\<rparr>)
      else if arg = ''--cache-location'' then
        Inr (True, st\<lparr>eslintOptions := (eslintOptions st)\<lparr>cacheLocation := Some next\<rparr>\<rparr>)
      else if arg = ''--cache-strategy'' then
        Inr (True, st\<lparr>eslintOptions := (eslintOptions st)\<lparr>cacheStrategy := Some next\<rparr>\<rparr>)
      else if arg = ''--no-error-on-unmatched-pattern'' then
        Inr (False,
          st\<lparr>eslintOptions := (eslintOptions st)\<lparr>errorOnUnmatchedPattern := Some False\<rparr>\<rparr>)
      else if arg = ''--max-warnings'' then
        Inr (True, st\<lparr>maxWarnings := Some (parseInt next)\<rparr>)
      else if arg = ''-f'' \<or> arg = ''--format'' then
        Inr (True, st\<lparr>format := next\<rparr>)
      else if arg = ''--ext'' then
        (case next of
           Undefined \<Rightarrow> Inl TypeError
         | Str extArg \<Rightarrow>
             Inr (True, st\<lparr>extensions := map normalizeExt (jsSplit CHR '','' extArg)\<rparr>))
      else if arg = ''--rule'' then
        (case next of
           Undefined \<Rightarrow> Inl TypeError
         | Str value \<Rightarrow>
             (case parseRuleValue jsonParse value of
                None \<Rightarrow> Inr (True, st)
              | Some (name, config) \<Rightarrow>
                  Inr (True, st\<lparr>rules := assignRule (rules st) name config\<rparr>)))
      else Inr (False, st))"

text \<open>The loop over the tokens still to be read; after \<open>++i\<close> it goes on behind the value.\<close>

function parseLoop ::
  "(string \<Rightarrow> 'j option) \<Rightarrow> string list \<Rightarrow> 'j parseVars \<Rightarrow> error + 'j parseVars" where
  "parseLoop jsonParse [] st = Inr st"
| "parseLoop jsonParse (arg # rest) st =
     (case parseArg jsonParse arg (nextArg rest) st of
        Inl e \<Rightarrow> Inl e
      | Inr (consumed, st') \<Rightarrow> parseLoop jsonParse (if consumed then tl rest else rest) st')"
  by pat_completeness auto
termination
  by (relation "measure (\<lambda>(jp, args, st). length args)") auto

definition parseESLintOptions ::
  "(string \<Rightarrow> 'j option) \<Rightarrow> string list \<Rightarrow> error + 'j ParsedOptions" where
  "parseESLintOptions jsonParse args =
     (case parseLoop jsonParse args initialVars of
        Inl e \<Rightarrow> Inl e
      | Inr st \<Rightarrow>
          Inr \<lparr>eslintOptions =
                 (if \<not> Mapping.is_empty (rules st)
                  then (eslintOptions st)\<lparr>overrideConfig := Some (rules st)\<rparr>
                  else eslintOptions st),
               maxWarnings = maxWarnings st,
               format = format st,
               extensions =
                 (if length (extensions st) > 0 then extensions st else DEFAULT_EXTENSIONS)\<rparr>)"

text \<open>
  \<open>optionPosition pre\<close>: a parse of \<open>pre\<close> followed by more tokens reads the first of these
  as an option, not as the value that the last option of \<open>pre\<close> (one of the nine that execute
  \<open>++i\<close>) is still waiting for.
\<close>

fun optionPosition :: "string list \<Rightarrow> bool" where
  "optionPosition [] = True"
| "optionPosition [t] = (\<not> takesValue t)"
| "optionPosition (t # v # rest) =
     (if takesValue t then optionPosition rest else optionPosition (v # rest))"


text \<open>What one token, read as an option, adds to the classifier's result.\<close>

definition reported :: "string \<Rightarrow> string list" where
  "reported t =
     (if isOptionToken t \<and> \<not> inVocabulary (nameBeforeEq t) then [nameBeforeEq t] else [])"


section \<open>Rule overrides, in the words of the specification\<close>

text \<open>
  The value of a \<open>--rule\<close> is cut at its first colon into a name and a configuration
  string.  A string that begins with \<open>[\<close> is parsed as a structured literal and kept as it
  is when that fails; otherwise \<open>off\<close>, \<open>warn\<close> and \<open>error\<close> are the severities 0, 1 and
  2, any other string is parsed as an integer, and kept as it is when that fails.  The
  overrides are a mapping in which a later value for a name replaces an earlier one.
\<close>

definition spec_config :: "(string \<Rightarrow> 'j option) \<Rightarrow> string \<Rightarrow> 'j ruleConfig" where
  "spec_config jsonParse s =
     (if startsWith s ''['' then
        (case jsonParse s of Some j \<Rightarrow> Structured j | None \<Rightarrow> RawString s)
      else if s = ''off'' then Severity 0
      else if s = ''warn'' then Severity 1
      else if s = ''error'' then Severity 2
      else (case parseInt (Str s) of Num n \<Rightarrow> Severity n | NaN \<Rightarrow> RawString s))"

definition spec_ruleName :: "string \<Rightarrow> string" where
  "spec_ruleName v = takeWhile (\<lambda>c. c \<noteq> CHR '':'') v"

definition spec_ruleValue ::
  "(string \<Rightarrow> 'j option) \<Rightarrow> string \<Rightarrow> (string \<times> 'j ruleConfig) option" where
  "spec_ruleValue jsonParse v =
     (if CHR '':'' \<in> set v
      then Some (spec_ruleName v, spec_config jsonParse (drop (Suc (length (spec_ruleName v))) v))
      else None)"

definition spec_ruleStep ::
  "(string \<Rightarrow> 'j option) \<Rightarrow> (string, 'j ruleConfig) mapping \<Rightarrow> string \<Rightarrow>
     (string, 'j ruleConfig) mapping" where
  "spec_ruleStep jsonParse m v =
     (case spec_ruleValue jsonParse v of
        None \<Rightarrow> m
      | Some (name, config) \<Rightarrow> Mapping.update name config m)"

definition spec_rules ::
  "(string \<Rightarrow> 'j option) \<Rightarrow> string list \<Rightarrow> (string, 'j ruleConfig) mapping" where
  "spec_rules jsonParse vs = foldl (spec_ruleStep jsonParse) Mapping.empty vs"

text \<open>The token sequence \<open>--rule v1 --rule v2 ...\<close>.\<close>

definition ruleArgs :: "string list \<Rightarrow> string list" where
  "ruleArgs vs = concat (map (\<lambda>v. [''--rule'', v]) vs)"


section \<open>The runner and its collaborators\<close>

text \<open>
  The engine, the glob utility, the formatter, the clock, the process environment and the
  child process are outside the repository.  Each is a function of the model's parameter
  \<open>env\<close> that reads and changes an opaque state \<open>'w\<close> of the outside world, so that a call
  may answer differently each time; a call that throws answers \<open>None\<close> (or \<open>False\<close> where it
  returns nothing).  The model records every call and every write in a trace.
\<close>

datatype message =
    DiscoveringFiles
  | ClearDiscovering
  | LintedSummary nat int
  | UnsupportedWarning "string list"
  | DebugError
  | Text string

datatype ('r, 'j) event =
    StderrWrite message
  | StdoutWrite string
  | ImportESLint
  | NewESLint "'j ESLintOptions"
  | Globby "string list"
  | IsPathIgnored string
  | LintFiles "string list"
  | LoadFormatter jsstr
  | Format "'r list"
  | OutputFixes "'r list"
  | CreateProgressBar
  | ProgressStart nat
  | ProgressIncrement nat
  | ProgressStop
  | DateNow
  | Spawn string "string list"

datatype spawnOutcome = Closed "int option" string string | SpawnError string

record ('w, 'r, 'j, 'f) env =
  JSON_parse :: "string \<Rightarrow> 'j option"
  import_eslint :: "'w \<Rightarrow> bool \<times> 'w"
  new_ESLint :: "'j ESLintOptions \<Rightarrow> 'w \<Rightarrow> bool \<times> 'w"
  stderr_isTTY :: "'w \<Rightarrow> bool"
  process_env :: "'w \<Rightarrow> string \<Rightarrow> string option"
  globby_call :: "string list \<Rightarrow> 'w \<Rightarrow> string list option \<times> 'w"
  eslint_isPathIgnored :: "string \<Rightarrow> 'w \<Rightarrow> bool option \<times> 'w"
  eslint_lintFiles :: "string list \<Rightarrow> 'w \<Rightarrow> 'r list option \<times> 'w"
  eslint_loadFormatter :: "jsstr \<Rightarrow> 'w \<Rightarrow> 'f option \<times> 'w"
  formatter_format :: "'f \<Rightarrow> 'r list \<Rightarrow> 'w \<Rightarrow> string option \<times> 'w"
  ESLint_outputFixes :: "'r list \<Rightarrow> 'w \<Rightarrow> bool \<times> 'w"
  result_errorCount :: "'r \<Rightarrow> int"
  result_warningCount :: "'r \<Rightarrow> int"
  Date_now :: "'w \<Rightarrow> int \<times> 'w"
  spawn_call :: "string \<Rightarrow> string list \<Rightarrow> 'w \<Rightarrow> spawnOutcome \<times> 'w"

record ('w, 'r, 'j) state =
  world :: 'w
  trace :: "('r, 'j) event list"

definition emit :: "('r, 'j) event \<Rightarrow> ('w, 'r, 'j) state \<Rightarrow> ('w, 'r, 'j) state" where
  "emit e s = s\<lparr>trace := trace s @ [e]\<rparr>"

text \<open>One call of a collaborator: the call is recorded, then the world answers.\<close>

definition perform ::
  "('r, 'j) event \<Rightarrow> ('w \<Rightarrow> 'a \<times> 'w) \<Rightarrow> ('w, 'r, 'j) state \<Rightarrow> 'a \<times> ('w, 'r, 'j) state" where
  "perform e f s = (case f (world s) of (a, w') \<Rightarrow> (a, \<lparr>world = w', trace = trace s @ [e]\<rparr>))"

text \<open>\<open>RunResult\<close>; \<open>outputText\<close> is its field \<open>output\<close>.\<close>

record RunResult =
  exitCode :: int
  outputText :: string
  errorOutput :: string

subsection \<open>\<open>shouldShowProgress\<close>\<close>

definition ciVars :: "string list" where
  "ciVars =
     [''CI'', ''CONTINUOUS_INTEGRATION'', ''GITHUB_ACTIONS'', ''TRAVIS'', ''CIRCLECI'',
      ''GITLAB_CI'', ''JENKINS_URL'', ''BUILDKITE'', ''TF_BUILD'']"

text \<open>A variable of the environment is truthy when it is set to a non-empty string.\<close>

definition truthy :: "string option \<Rightarrow> bool" where
  "truthy x = (case x of None \<Rightarrow> False | Some v \<Rightarrow> v \<noteq> [])"

definition shouldShowProgress :: "('w, 'r, 'j, 'f) env \<Rightarrow> 'w \<Rightarrow> bool" where
  "shouldShowProgress env w =
     (if \<not> stderr_isTTY env w then False
      else \<not> list_ex (\<lambda>v. truthy (process_env env w v)) ciVars)"

subsection \<open>\<open>getFilesToLint\<close>\<close>

definition globPatternsOf :: "string list \<Rightarrow> string list \<Rightarrow> string list" where
  "globPatternsOf patterns exts =
     concat (map (\<lambda>pattern.
        if includesChar pattern CHR ''*'' \<or> list_ex (\<lambda>ext. endsWith pattern ext) exts
        then [pattern]
        else map (\<lambda>ext. pattern @ ''/**/*'' @ ext) exts) patterns)"

definition getFilesToLint ::
  "('w, 'r, 'j, 'f) env \<Rightarrow> string list \<Rightarrow> string list \<Rightarrow> ('w, 'r, 'j) state \<Rightarrow>
     string list \<times> ('w, 'r, 'j) state" where
  "getFilesToLint env patterns exts s =
     (let globPatterns = globPatternsOf patterns exts in
      case perform (Globby globPatterns) (globby_call env globPatterns) s of
        (None, s') \<Rightarrow> ([], s')
      | (Some found, s') \<Rightarrow> (found, s'))"

subsection \<open>\<open>runWithAPI\<close>\<close>

definition BATCH_SIZE :: nat where
  "BATCH_SIZE = 20"

text \<open>The loop that keeps the candidates the engine does not ignore.\<close>

fun filterIgnored ::
  "('w, 'r, 'j, 'f) env \<Rightarrow> string list \<Rightarrow> string list \<Rightarrow> ('w, 'r, 'j) state \<Rightarrow>
     string list option \<times> ('w, 'r, 'j) state" where
  "filterIgnored env [] files s = (Some files, s)"
| "filterIgnored env (file # candidates) files s =
     (case perform (IsPathIgnored file) (eslint_isPathIgnored env file) s of
        (None, s') \<Rightarrow> (None, s')
      | (Some ignored, s') \<Rightarrow>
          filterIgnored env candidates (if \<not> ignored then files @ [file] else files) s')"

text \<open>
  The batch loop \<^verbatim>\<open>for (let i = 0; i < files.length; i += BATCH_SIZE)\<close>;
  \<open>files.slice(i, i + BATCH_SIZE)\<close> is \<open>take BATCH_SIZE (drop i files)\<close>.
\<close>

function lintBatches ::
  "('w, 'r, 'j, 'f) env \<Rightarrow> string list \<Rightarrow> nat \<Rightarrow> 'r list \<Rightarrow> ('w, 'r, 'j) state \<Rightarrow>
     'r list option \<times> ('w, 'r, 'j) state" where
  "lintBatches env files i allResults s =
     (if i < length files then
        (let batch = take BATCH_SIZE (drop i files) in
         case perform (LintFiles batch) (eslint_lintFiles env batch) s of
           (None, s') \<Rightarrow> (None, s')
         | (Some results, s') \<Rightarrow>
             lintBatches env files (i + BATCH_SIZE) (allResults @ results)
               (emit (ProgressIncrement (length batch)) s'))
      else (Some allResults, s))"
  by pat_completeness auto
termination
  by (relation "measure (\<lambda>(env, files, i, allResults, s). length files - i)")
    (auto simp: BATCH_SIZE_def)

text \<open>Loading the formatter, formatting, and the exit code: the end of both branches.\<close>

definition formatAndExit ::
  "('w, 'r, 'j, 'f) env \<Rightarrow> jsstr \<Rightarrow> jsnum option \<Rightarrow> 'r list \<Rightarrow> ('w, 'r, 'j) state \<Rightarrow>
     RunResult option \<times> ('w, 'r, 'j) state" where
  "formatAndExit env fmt maxW results s =
     (case perform (LoadFormatter fmt) (eslint_loadFormatter env fmt) s of
        (None, s1) \<Rightarrow> (None, s1)
      | (Some formatter, s1) \<Rightarrow>
          (case perform (Format results) (formatter_format env formatter results) s1 of
             (None, s2) \<Rightarrow> (None, s2)
           | (Some out, s2) \<Rightarrow>
               (let errorCount = foldl (\<lambda>sum r. sum + result_errorCount env r) 0 results;
                    warningCount = foldl (\<lambda>sum r. sum + result_warningCount env r) 0 results
                in (Some \<lparr>exitCode = calculateExitCode errorCount warningCount maxW,
                          outputText = out, errorOutput = ''''\<rparr>, s2))))"

text \<open>The branch for an empty file list.\<close>

definition lintPatterns ::
  "('w, 'r, 'j, 'f) env \<Rightarrow> string list \<Rightarrow> jsstr \<Rightarrow> jsnum option \<Rightarrow> ('w, 'r, 'j) state \<Rightarrow>
     RunResult option \<times> ('w, 'r, 'j) state" where
  "lintPatterns env patterns fmt maxW s =
     (case perform (LintFiles patterns) (eslint_lintFiles env patterns) s of
        (None, s') \<Rightarrow> (None, s')
      | (Some results, s') \<Rightarrow> formatAndExit env fmt maxW results s')"

text \<open>The branch with files: progress bar, batches, summary, fixes, output.\<close>

definition lintWithProgress ::
  "('w, 'r, 'j, 'f) env \<Rightarrow> 'j ParsedOptions \<Rightarrow> bool \<Rightarrow> string list \<Rightarrow>
     ('w, 'r, 'j) state \<Rightarrow> RunResult option \<times> ('w, 'r, 'j) state" where
  "lintWithProgress env opts showProgress files s =
     (let totalFiles = length files;
          s1 = emit (ProgressStart totalFiles) (emit CreateProgressBar s) in
      case perform DateNow (Date_now env) s1 of (startTime, s2) \<Rightarrow>
      case lintBatches env files 0 [] s2 of
        (None, s3) \<Rightarrow> (None, s3)
      | (Some allResults, s3) \<Rightarrow>
          (let s4 = emit ProgressStop s3;
               s5 = (if showProgress then
                       (case perform DateNow (Date_now env) s4 of
                          (endTime, s') \<Rightarrow>
                            emit (StderrWrite (LintedSummary totalFiles (endTime - startTime))) s')
                     else s4)
           in if fix_flag (eslintOptions opts) = Some True then
                (case perform (OutputFixes allResults) (ESLint_outputFixes env allResults) s5 of
                   (False, s6) \<Rightarrow> (None, s6)
                 | (True, s6) \<Rightarrow>
                     formatAndExit env (format opts) (maxWarnings opts) allResults s6)
              else formatAndExit env (format opts) (maxWarnings opts) allResults s5))"

text \<open>
  From the construction of the engine to the filtered file list: the first half of the
  \<open>try\<close> block.  \<open>None\<close>: something threw.
\<close>

definition discoverFiles ::
  "('w, 'r, 'j, 'f) env \<Rightarrow> string list \<Rightarrow> ('w, 'r, 'j) state \<Rightarrow>
     ('j ParsedOptions \<times> bool \<times> string list) option \<times> ('w, 'r, 'j) state" where
  "discoverFiles env args s =
     (case parseESLintOptions (JSON_parse env) args of
        Inl e \<Rightarrow> (None, s)
      | Inr opts \<Rightarrow>
          (case perform (NewESLint (eslintOptions opts)) (new_ESLint env (eslintOptions opts)) s of
             (False, s1) \<Rightarrow> (None, s1)
           | (True, s1) \<Rightarrow>
               (let patterns = extractPatterns args;
                    showProgress = shouldShowProgress env (world s1);
                    s2 = (if showProgress then emit (StderrWrite DiscoveringFiles) s1 else s1)
                in case getFilesToLint env patterns (extensions opts) s2 of
                     (candidateFiles, s3) \<Rightarrow>
                       (case filterIgnored env candidateFiles [] s3 of
                          (None, s4) \<Rightarrow> (None, s4)
                        | (Some files, s4) \<Rightarrow>
                            (Some (opts, showProgress, files),
                             if showProgress then emit (StderrWrite ClearDiscovering) s4
                             else s4)))))"

definition tryBody ::
  "('w, 'r, 'j, 'f) env \<Rightarrow> string list \<Rightarrow> ('w, 'r, 'j) state \<Rightarrow>
     RunResult option \<times> ('w, 'r, 'j) state" where
  "tryBody env args s =
     (case discoverFiles env args s of
        (None, s') \<Rightarrow> (None, s')
      | (Some (opts, showProgress, files), s') \<Rightarrow>
          (if length files = 0 then
             lintPatterns env (extractPatterns args) (format opts) (maxWarnings opts) s'
           else lintWithProgress env opts showProgress files s'))"

text \<open>\<open>None\<close> is the \<open>null\<close> that sends the caller to the fallback.\<close>

definition runWithAPI ::
  "('w, 'r, 'j, 'f) env \<Rightarrow> string list \<Rightarrow> ('w, 'r, 'j) state \<Rightarrow>
     RunResult option \<times> ('w, 'r, 'j) state" where
  "runWithAPI env args s =
     (case perform ImportESLint (import_eslint env) s of
        (False, s0) \<Rightarrow> (None, s0)
      | (True, s0) \<Rightarrow>
          (case tryBody env args s0 of
             (Some r, s') \<Rightarrow> (Some r, s')
           | (None, s') \<Rightarrow>
               (None,
                if truthy (process_env env (world s') ''DEBUG'')
                then emit (StderrWrite DebugError) s' else s')))"

subsection \<open>\<open>runWithSpawn\<close> and \<open>runESLint\<close>\<close>

definition runWithSpawn ::
  "('w, 'r, 'j, 'f) env \<Rightarrow> string list \<Rightarrow> ('w, 'r, 'j) state \<Rightarrow>
     RunResult \<times> ('w, 'r, 'j) state" where
  "runWithSpawn env args s =
     (case perform (Spawn ''npx'' (''eslint'' # args)) (spawn_call env ''npx'' (''eslint'' # args)) s of
        (Closed code out err, s') \<Rightarrow>
          (\<lparr>exitCode = (case code of None \<Rightarrow> 1 | Some c \<Rightarrow> c), outputText = out,
            errorOutput = err\<rparr>, s')
      | (SpawnError msg, s') \<Rightarrow>
          (\<lparr>exitCode = 1, outputText = '''', errorOutput = ''Failed to spawn: '' @ msg\<rparr>, s'))"

text \<open>Writing a result to the two streams; an empty string is not written.\<close>

definition writeResult :: "RunResult \<Rightarrow> ('w, 'r, 'j) state \<Rightarrow> ('w, 'r, 'j) state" where
  "writeResult r s =
     (let s1 = (if outputText r \<noteq> [] then emit (StdoutWrite (outputText r)) s else s)
      in if errorOutput r \<noteq> [] then emit (StderrWrite (Text (errorOutput r))) s1 else s1)"

definition runESLint ::
  "('w, 'r, 'j, 'f) env \<Rightarrow> string list \<Rightarrow> ('w, 'r, 'j) state \<Rightarrow> int \<times> ('w, 'r, 'j) state" where
  "runESLint env args s =
     (let unsupported = findUnsupportedOptions args in
      if length unsupported > 0 then
        (case runWithSpawn env args (emit (StderrWrite (UnsupportedWarning unsupported)) s) of
           (spawnResult, s') \<Rightarrow> (exitCode spawnResult, writeResult spawnResult s'))
      else
        (case runWithAPI env args s of
           (Some result, s') \<Rightarrow> (exitCode result, writeResult result s')
         | (None, s') \<Rightarrow>
             (case runWithSpawn env args s' of
                (spawnResult, s'') \<Rightarrow> (exitCode spawnResult, writeResult spawnResult s''))))"

section \<open>Batches, in the words of the specification\<close>

text \<open>The consecutive chunks of at most \<open>n\<close> elements of a list.\<close>

function chunks :: "nat \<Rightarrow> 'a list \<Rightarrow> 'a list list" where
  "chunks n xs = (if n = 0 \<or> xs = [] then [] else take n xs # chunks n (drop n xs))"
  by pat_completeness auto
termination
  by (relation "measure (\<lambda>(n, xs). length xs)") auto

text \<open>
  What the engine answers when it is asked to lint the chunks one after the other, each call
  in the world the call before left: the list of the results, or \<open>None\<close> when a call throws.
\<close>

fun engineResults ::
  "('w, 'r, 'j, 'f) env \<Rightarrow> string list list \<Rightarrow> 'w \<Rightarrow> 'r list list option" where
  "engineResults env [] w = Some []"
| "engineResults env (c # cs) w =
     (case eslint_lintFiles env c w of
        (None, w') \<Rightarrow> None
      | (Some r, w') \<Rightarrow> map_option ((#) r) (engineResults env cs w'))"

text \<open>The calls of the lint operation and the progress increments recorded in a trace.\<close>

fun lintCalls :: "('r, 'j) event list \<Rightarrow> string list list" where
  "lintCalls [] = []"
| "lintCalls (LintFiles fs # es) = fs # lintCalls es"
| "lintCalls (e # es) = lintCalls es"

fun increments :: "('r, 'j) event list \<Rightarrow> nat list" where
  "increments [] = []"
| "increments (ProgressIncrement n # es) = n # increments es"
| "increments (e # es) = increments es"

text \<open>The events of the progress bar: its creation, its start, its increments, its stop.\<close>

fun isProgressEvent :: "('r, 'j) event \<Rightarrow> bool" where
  "isProgressEvent CreateProgressBar = True"
| "isProgressEvent (ProgressStart n) = True"
| "isProgressEvent (ProgressIncrement n) = True"
| "isProgressEvent ProgressStop = True"
| "isProgressEvent e = False"


declare lintBatches.simps [simp del]

declare chunks.simps [simp del]

text \<open>
  The protocol of the specification over a list of chunks: for each chunk, call the lint
  operation on it, append what it returns to the accumulator, then advance the progress by
  the size of the chunk.
\<close>

fun spec_lintChunks ::
  "('w, 'r, 'j, 'f) env \<Rightarrow> string list list \<Rightarrow> 'r list \<Rightarrow> ('w, 'r, 'j) state \<Rightarrow>
     'r list option \<times> ('w, 'r, 'j) state" where
  "spec_lintChunks env [] acc s = (Some acc, s)"
| "spec_lintChunks env (c # cs) acc s =
     (case perform (LintFiles c) (eslint_lintFiles env c) s of
        (None, s') \<Rightarrow> (None, s')
      | (Some r, s') \<Rightarrow> spec_lintChunks env cs (acc @ r) (emit (ProgressIncrement (length c)) s'))"


section \<open>A sample world\<close>

text \<open>
  A world for the examples: its state counts the calls; the terminal is interactive and no
  variable is set; the glob utility finds nothing; the engine ignores no path and reports one
  warning and no error for each file or pattern it is given; the formatter returns
  \<open>report\<close>; the child process prints \<open>out\<close> and exits with code 2.  A lint result is the
  pair of its error count and its warning count.
\<close>

definition sampleEnv :: "(nat, int \<times> int, unit, unit) env" where
  "sampleEnv =
     \<lparr>JSON_parse = (\<lambda>text. None),
      import_eslint = (\<lambda>w. (True, Suc w)),
      new_ESLint = (\<lambda>opts w. (True, Suc w)),
      stderr_isTTY = (\<lambda>w. True),
      process_env = (\<lambda>w v. None),
      globby_call = (\<lambda>globs w. (Some [], Suc w)),
      eslint_isPathIgnored = (\<lambda>file w. (Some False, Suc w)),
      eslint_lintFiles = (\<lambda>fs w. (Some (map (\<lambda>f. (0, 1)) fs), Suc w)),
      eslint_loadFormatter = (\<lambda>name w. (Some (), Suc w)),
      formatter_format = (\<lambda>formatter rs w. (Some ''report'', Suc w)),
      ESLint_outputFixes = (\<lambda>rs w. (True, Suc w)),
      result_errorCount = fst,
      result_warningCount = snd,
      Date_now = (\<lambda>w. (int w, Suc w)),
      spawn_call = (\<lambda>cmd as w. (Closed (Some 2) ''out'' '''', Suc w))\<rparr>"

definition sampleState :: "(nat, int \<times> int, unit) state" where
  "sampleState = \<lparr>world = 0, trace = []\<rparr>"

text \<open>Forty-one file names.\<close>

definition sampleFiles :: "string list" where
  "sampleFiles = map (\<lambda>n. ''src/'' @ replicate n CHR ''x'' @ ''.js'') [0..<41]"


text \<open>The events that are calls of the lint operation.\<close>

fun isLintCall :: "('r, 'j) event \<Rightarrow> bool" where
  "isLintCall (LintFiles fs) = True"
| "isLintCall e = False"


section \<open>The end of a batched run\<close>

text \<open>
  What \<open>runWithAPI\<close> does once the batch loop has returned \<open>allResults\<close>: the rest of the
  \<open>try\<close> block, as it stands in \<open>lintWithProgress\<close>.
\<close>

definition afterLoop ::
  "('w, 'r, 'j, 'f) env \<Rightarrow> 'j ParsedOptions \<Rightarrow> bool \<Rightarrow> nat \<Rightarrow> int \<Rightarrow> 'r list \<Rightarrow>
     ('w, 'r, 'j) state \<Rightarrow> RunResult option \<times> ('w, 'r, 'j) state" where
  "afterLoop env opts showProgress totalFiles startTime allResults s3 =
     (let s4 = emit ProgressStop s3;
          s5 = (if showProgress then
                  (case perform DateNow (Date_now env) s4 of
                     (endTime, s') \<Rightarrow>
                       emit (StderrWrite (LintedSummary totalFiles (endTime - startTime))) s')
                else s4)
      in if fix_flag (eslintOptions opts) = Some True then
           (case perform (OutputFixes allResults) (ESLint_outputFixes env allResults) s5 of
              (False, s6) \<Rightarrow> (None, s6)
            | (True, s6) \<Rightarrow> formatAndExit env (format opts) (maxWarnings opts) allResults s6)
         else formatAndExit env (format opts) (maxWarnings opts) allResults s5)"

text \<open>
  The world the lint calls on the chunks leave, one after the other (up to the first that
  throws).
\<close>

fun engineWorld :: "('w, 'r, 'j, 'f) env \<Rightarrow> string list list \<Rightarrow> 'w \<Rightarrow> 'w" where
  "engineWorld env [] w = w"
| "engineWorld env (c # cs) w =
     (case eslint_lintFiles env c w of
        (None, w') \<Rightarrow> w'
      | (Some r, w') \<Rightarrow> engineWorld env cs w')"

text \<open>
  The world in which the formatter is loaded after the loop: the clock has been read for the
  summary when progress shows, and the fixes have been written when \<open>fix\<close> is set; \<open>None\<close>
  when writing the fixes throws.
\<close>

definition formatterWorld ::
  "('w, 'r, 'j, 'f) env \<Rightarrow> 'j ParsedOptions \<Rightarrow> bool \<Rightarrow> 'r list \<Rightarrow> 'w \<Rightarrow> 'w option" where
  "formatterWorld env opts showProgress allResults w3 =
     (let w4 = (if showProgress then snd (Date_now env w3) else w3)
      in if fix_flag (eslintOptions opts) = Some True then
           (case ESLint_outputFixes env allResults w4 of
              (False, w5) \<Rightarrow> None
            | (True, w5) \<Rightarrow> Some w5)
         else Some w4)"

text \<open>The result lists given to the formatter, as recorded in a trace.\<close>

fun formatCalls :: "('r, 'j) event list \<Rightarrow> 'r list list" where
  "formatCalls [] = []"
| "formatCalls (Format rs # es) = rs # formatCalls es"
| "formatCalls (e # es) = formatCalls es"

fun isFormatCall :: "('r, 'j) event \<Rightarrow> bool" where
  "isFormatCall (Format rs) = True"
| "isFormatCall e = False"

text \<open>The sample world again, with a glob utility that finds the forty-one files.\<close>

definition batchEnv :: "(nat, int \<times> int, unit, unit) env" where
  "batchEnv = sampleEnv\<lparr>globby_call := (\<lambda>globs w. (Some sampleFiles, Suc w))\<rparr>"


section \<open>Theorems\<close>

text \<open>
  C1. For all error and warning counts (in particular all non-negative ones) and every
  threshold state (absent, an integer, or the \<open>NaN\<close> left by a malformed
  \<open>--max-warnings\<close>): the exit code is 1 when the error count is positive; it is 1 when a
  threshold is set and the warning count is strictly greater than it; it is 0 in every other
  case.  A warning count equal to the threshold gives 0, and an absent threshold gives 0
  whatever the warning count, as long as there is no error.
\<close>

theorem calculateExitCode_rule:
  "(0 < e \<longrightarrow> calculateExitCode e w mw = 1) \<and>
   (mw = Some (Num t) \<and> t < w \<longrightarrow> calculateExitCode e w mw = 1) \<and>
   (\<not> 0 < e \<and> \<not> (\<exists>t'. mw = Some (Num t') \<and> t' < w) \<longrightarrow> calculateExitCode e w mw = 0) \<and>
   (\<not> 0 < e \<longrightarrow> calculateExitCode e t (Some (Num t)) = 0) \<and>
   (\<not> 0 < e \<longrightarrow> calculateExitCode e w None = 0) \<and>
   calculateExitCode e w mw \<in> {0, 1}"
proof -
  have nan: "\<not> gtNum w n" if "\<not> (\<exists>t'. n = Num t' \<and> t' < w)" for n
    using that by (cases n) simp_all
  show ?thesis
    unfolding calculateExitCode_def
    by (cases mw) (auto simp: nan)
qed

theorem calculateExitCode_rule_witness:
  "calculateExitCode 0 5 (Some (Num 5)) = 0 \<and>
   calculateExitCode 0 6 (Some (Num 5)) = 1 \<and>
   calculateExitCode 1 0 None = 1 \<and>
   calculateExitCode 1 9 (Some NaN) = 1 \<and>
   calculateExitCode 0 9 (Some NaN) = 0 \<and>
   calculateExitCode 0 1000 None = 0"
  using calculateExitCode_rule [of 0 5 "Some (Num 5)" 5]
    calculateExitCode_rule [of 0 6 "Some (Num 5)" 5]
    calculateExitCode_rule [of 1 0 None 0]
    calculateExitCode_rule [of 1 9 "Some NaN" 0]
    calculateExitCode_rule [of 0 9 "Some NaN" 0]
    calculateExitCode_rule [of 0 1000 None 0]
  by simp

subsection \<open>Strings and vocabularies\<close>

lemma startsWith_dash: "startsWith t ''-'' = isOptionToken t"
  by (cases t) (auto simp: startsWith_def isOptionToken_def)

lemma jsSplit_nonempty: "jsSplit c s \<noteq> []"
  by (induction s) (auto split: list.splits)

lemma hd_jsSplit: "hd (jsSplit c s) = takeWhile (\<lambda>x. x \<noteq> c) s"
  using jsSplit_nonempty [of c] by (induction s) (auto split: list.splits)

lemma nameBeforeEq_id: "CHR ''='' \<notin> set t \<Longrightarrow> nameBeforeEq t = t"
  by (auto simp: nameBeforeEq_def)

lemma optionNameOf_eq: "optionNameOf t = nameBeforeEq t"
proof (cases "CHR ''='' \<in> set t")
  case True
  then show ?thesis
    by (simp add: optionNameOf_def hd_jsSplit includesChar_def nameBeforeEq_def)
next
  case False
  then show ?thesis
    by (simp add: optionNameOf_def includesChar_def nameBeforeEq_id)
qed

lemma no_eq_in_value_option: "t \<in> set SUPPORTED_OPTIONS_WITH_VALUES \<Longrightarrow> CHR ''='' \<notin> set t"
  by (auto simp: SUPPORTED_OPTIONS_WITH_VALUES_def)

lemma flags_values_disjoint: "t \<in> set SUPPORTED_FLAGS \<Longrightarrow> t \<notin> set SUPPORTED_OPTIONS_WITH_VALUES"
  by (auto simp: SUPPORTED_FLAGS_def SUPPORTED_OPTIONS_WITH_VALUES_def)


lemma takesValue_isOption: "takesValue t \<Longrightarrow> isOptionToken t"
  by (auto simp: takesValue_def SUPPORTED_OPTIONS_WITH_VALUES_def isOptionToken_def)

lemma takesValue_name: "takesValue t \<Longrightarrow> nameBeforeEq t = t"
  using no_eq_in_value_option nameBeforeEq_id by (simp add: takesValue_def)

lemma name_value_cases:
  "nameBeforeEq t \<in> set SUPPORTED_OPTIONS_WITH_VALUES \<Longrightarrow> takesValue t \<or> CHR ''='' \<in> set t"
  using nameBeforeEq_id [of t] unfolding takesValue_def by metis

lemma findLoop_True: "findLoop (v # rest) True acc = findLoop rest False acc"
  by simp

lemma findLoop_nonopt:
  "\<not> isOptionToken t \<Longrightarrow> findLoop (t # rest) False acc = findLoop rest False acc"
  by (simp add: startsWith_dash)

lemma findLoop_value:
  "takesValue t \<Longrightarrow> findLoop (t # rest) False acc = findLoop rest True acc"
  using takesValue_isOption [of t] takesValue_name [of t] no_eq_in_value_option [of t]
    flags_values_disjoint [of t]
  by (auto simp: startsWith_dash optionNameOf_eq takesValue_def includesChar_def Let_def)

lemma findLoop_vocab:
  "isOptionToken t \<Longrightarrow> \<not> takesValue t \<Longrightarrow> inVocabulary (nameBeforeEq t) \<Longrightarrow>
   findLoop (t # rest) False acc = findLoop rest False acc"
  using name_value_cases [of t]
  by (auto simp: startsWith_dash optionNameOf_eq inVocabulary_def includesChar_def Let_def)

lemma findLoop_unsup:
  "isOptionToken t \<Longrightarrow> \<not> inVocabulary (nameBeforeEq t) \<Longrightarrow>
   findLoop (t # rest) False acc =
     findLoop rest (rest \<noteq> [] \<and> \<not> isOptionToken (hd rest)) (acc @ [nameBeforeEq t])"
  by (simp add: startsWith_dash optionNameOf_eq inVocabulary_def Let_def)

lemma not_vocab_not_value: "\<not> inVocabulary (nameBeforeEq t) \<Longrightarrow> \<not> takesValue t"
  using takesValue_name [of t] by (auto simp: inVocabulary_def takesValue_def)

lemma findLoop_spec: "findLoop args False acc = acc @ spec_unsupported args"
proof (induction args arbitrary: acc rule: spec_unsupported.induct)
  case 1
  show ?case by simp
next
  case (2 t)
  consider "\<not> isOptionToken t" | "takesValue t"
    | "isOptionToken t" "\<not> takesValue t" "inVocabulary (nameBeforeEq t)"
    | "isOptionToken t" "\<not> inVocabulary (nameBeforeEq t)"
    by blast
  then show ?case
  proof cases
    case 1
    then show ?thesis by (simp add: findLoop_nonopt del: findLoop.simps(2))
  next
    case 2
    then have "inVocabulary (nameBeforeEq t)"
      by (simp add: takesValue_name inVocabulary_def takesValue_def)
    with 2 show ?thesis by (simp add: findLoop_value del: findLoop.simps(2))
  next
    case 3
    then show ?thesis by (simp add: findLoop_vocab del: findLoop.simps(2))
  next
    case 4
    then show ?thesis by (simp add: findLoop_unsup del: findLoop.simps(2))
  qed
next
  case (3 t v rest)
  consider "\<not> isOptionToken t" | "takesValue t"
    | "isOptionToken t" "\<not> takesValue t" "inVocabulary (nameBeforeEq t)"
    | "isOptionToken t" "\<not> inVocabulary (nameBeforeEq t)"
    by blast
  then show ?case
  proof cases
    case 1
    then show ?thesis using "3.IH"(1) by (simp add: findLoop_nonopt del: findLoop.simps(2))
  next
    case 2
    then show ?thesis using "3.IH"(2) takesValue_isOption [of t]
      by (simp add: findLoop_value findLoop_True del: findLoop.simps(2))
  next
    case 3
    then show ?thesis using "3.IH"(3) by (simp add: findLoop_vocab del: findLoop.simps(2))
  next
    case 4
    have nv: "\<not> takesValue t" using 4(2) by (rule not_vocab_not_value)
    show ?thesis
    proof (cases "isOptionToken v")
      case True
      then show ?thesis using 4 nv "3.IH"(4)
        by (simp add: findLoop_unsup del: findLoop.simps(2))
    next
      case False
      then show ?thesis using 4 nv "3.IH"(5)
        by (simp add: findLoop_unsup findLoop_True del: findLoop.simps(2))
    qed
  qed
qed

text \<open>
  C2, as amended.  For every token sequence, \<open>findUnsupportedOptions\<close> returns exactly what
  the contract describes (\<open>spec_unsupported\<close>): the option names, each cut before its first
  \<open>=\<close>, of the option-like tokens whose name is in neither vocabulary, one entry for each
  such token in the order of the tokens, so that a name is returned as often as it is
  reported; a supported option with a value that is not in \<open>=value\<close> form takes the next
  token whatever it is, an unsupported option takes the next token only when it does not
  start with a dash, and a token taken as a value is never reported.  The four examples of the
  specification are part of the statement.
\<close>

theorem findUnsupportedOptions_contract:
  "findUnsupportedOptions args = spec_unsupported args \<and>
   findUnsupportedOptions [''--quiet''] = [''--quiet''] \<and>
   findUnsupportedOptions [''--fix'', ''src''] = [] \<and>
   findUnsupportedOptions [''--parser=babel''] = [''--parser''] \<and>
   findUnsupportedOptions [''--config=eslint.config.js''] = []"
proof -
  have "findUnsupportedOptions args = spec_unsupported args"
    by (simp add: findUnsupportedOptions_def findLoop_spec)
  moreover have "findUnsupportedOptions [''--quiet''] = [''--quiet'']"
    by (simp add: findUnsupportedOptions_def startsWith_def optionNameOf_def includesChar_def
        SUPPORTED_FLAGS_def SUPPORTED_OPTIONS_WITH_VALUES_def)
  moreover have "findUnsupportedOptions [''--fix'', ''src''] = []"
    by (simp add: findUnsupportedOptions_def startsWith_def optionNameOf_def includesChar_def
        SUPPORTED_FLAGS_def SUPPORTED_OPTIONS_WITH_VALUES_def)
  moreover have "findUnsupportedOptions [''--parser=babel''] = [''--parser'']"
    by (simp add: findUnsupportedOptions_def startsWith_def optionNameOf_def includesChar_def
        SUPPORTED_FLAGS_def SUPPORTED_OPTIONS_WITH_VALUES_def)
  moreover have "findUnsupportedOptions [''--config=eslint.config.js''] = []"
    by (simp add: findUnsupportedOptions_def startsWith_def optionNameOf_def includesChar_def
        SUPPORTED_FLAGS_def SUPPORTED_OPTIONS_WITH_VALUES_def)
  ultimately show ?thesis by blast
qed

theorem findUnsupportedOptions_contract_witness:
  "findUnsupportedOptions
     [''--parser'', ''babel'', ''--config'', ''--quiet'', ''--parser=x'', ''src'', ''--debug'',
      ''--fix'', ''lib''] = [''--parser'', ''--parser'', ''--debug'']"
proof -
  have "spec_unsupported
     [''--parser'', ''babel'', ''--config'', ''--quiet'', ''--parser=x'', ''src'', ''--debug'',
      ''--fix'', ''lib''] = [''--parser'', ''--parser'', ''--debug'']"
    by (simp add: isOptionToken_def nameBeforeEq_def inVocabulary_def takesValue_def
        SUPPORTED_FLAGS_def SUPPORTED_OPTIONS_WITH_VALUES_def)
  then show ?thesis
    using findUnsupportedOptions_contract
      [of "[''--parser'', ''babel'', ''--config'', ''--quiet'', ''--parser=x'', ''src'',
            ''--debug'', ''--fix'', ''lib'']"]
    by simp
qed

text \<open>
  C2 as it is written fails: the result is not in order of first occurrence.  For
  \<open>--a --b --a\<close> the name \<open>--a\<close> is returned twice; nothing in the loop removes a name that
  is already in the result.
\<close>

theorem findUnsupportedOptions_repeated_counterexample:
  "findUnsupportedOptions [''--a'', ''--b'', ''--a''] = [''--a'', ''--b'', ''--a''] \<and>
   findUnsupportedOptions [''--a'', ''--b'', ''--a''] \<noteq> [''--a'', ''--b''] \<and>
   \<not> distinct (findUnsupportedOptions [''--a'', ''--b'', ''--a''])"
  by (simp add: findUnsupportedOptions_def startsWith_def optionNameOf_def includesChar_def
      SUPPORTED_FLAGS_def SUPPORTED_OPTIONS_WITH_VALUES_def Let_def)

subsection \<open>Pattern extraction\<close>

lemma extractLoop_True: "extractLoop (v # rest) True acc = extractLoop rest False acc"
  by simp

lemma extractLoop_nonopt:
  "\<not> isOptionToken t \<Longrightarrow> extractLoop (t # rest) False acc = extractLoop rest False (acc @ [t])"
  by (simp add: startsWith_dash)

lemma extractLoop_opt:
  "isOptionToken t \<Longrightarrow>
   extractLoop (t # rest) False acc = extractLoop rest (t \<in> set optionsWithValues) acc"
  by (simp add: startsWith_dash)

lemma extractLoop_spec: "fst (extractLoop args False acc) = acc @ spec_patterns args"
proof (induction args arbitrary: acc rule: spec_patterns.induct)
  case 1
  show ?case by simp
next
  case (2 t)
  show ?case by (simp add: startsWith_dash)
next
  case (3 t v rest)
  show ?case
  proof (cases "isOptionToken t")
    case False
    then show ?thesis using "3.IH"(1) by (simp add: extractLoop_nonopt del: extractLoop.simps(2))
  next
    case opt: True
    show ?thesis
    proof (cases "t \<in> set optionsWithValues")
      case True
      then show ?thesis using opt "3.IH"(2)
        by (simp add: extractLoop_opt extractLoop_True del: extractLoop.simps(2))
    next
      case False
      then show ?thesis using opt "3.IH"(3)
        by (simp add: extractLoop_opt del: extractLoop.simps(2))
    qed
  qed
qed

lemma extractPatterns_spec:
  "extractPatterns args = (if spec_patterns args = [] then [''.''] else spec_patterns args)"
  using extractLoop_spec [of args "[]"] by (simp add: extractPatterns_def Let_def)

text \<open>The scan of a prefix: what the loop holds when it reaches the rest.\<close>

lemma extractLoop_append:
  "extractLoop (pre @ rest) sk acc =
     extractLoop rest (snd (extractLoop pre sk acc)) (fst (extractLoop pre sk acc))"
  by (induction pre arbitrary: sk acc) simp_all

lemma extractLoop_acc:
  "extractLoop args sk acc =
     (acc @ fst (extractLoop args sk []), snd (extractLoop args sk []))"
proof (induction args arbitrary: sk acc)
  case Nil
  show ?case by simp
next
  case (Cons a args)
  show ?case
    using Cons [of False acc] Cons [of "a \<in> set optionsWithValues" acc]
      Cons [of False "acc @ [a]"] Cons [of False "[a]"]
    by simp
qed

lemma extractLoop_value_excluded:
  assumes "\<not> snd (extractLoop pre False [])"
    and "opt \<in> set optionsWithValues"
  shows "fst (extractLoop (pre @ opt # v # post) False []) =
           fst (extractLoop pre False []) @ fst (extractLoop post False [])"
    and "fst (extractLoop (pre @ post) False []) =
           fst (extractLoop pre False []) @ fst (extractLoop post False [])"
proof -
  have opt: "isOptionToken opt"
    using assms(2) by (auto simp: optionsWithValues_def isOptionToken_def)
  have "extractLoop (pre @ opt # v # post) False [] =
        extractLoop post False (fst (extractLoop pre False []))"
    using assms opt
    by (simp add: extractLoop_append extractLoop_opt extractLoop_True del: extractLoop.simps(2))
  then show "fst (extractLoop (pre @ opt # v # post) False []) =
           fst (extractLoop pre False []) @ fst (extractLoop post False [])"
    using extractLoop_acc [of post False "fst (extractLoop pre False [])"] by simp
  have "extractLoop (pre @ post) False [] =
        extractLoop post False (fst (extractLoop pre False []))"
    using assms(1) by (simp add: extractLoop_append)
  then show "fst (extractLoop (pre @ post) False []) =
           fst (extractLoop pre False []) @ fst (extractLoop post False [])"
    using extractLoop_acc [of post False "fst (extractLoop pre False [])"] by simp
qed


text \<open>
  C4. For every token sequence \<open>extractPatterns\<close> returns a non-empty sequence: the tokens
  that are neither option-like nor taken as a value by a known option, in order, and the single
  current-directory pattern \<open>["."]\<close> when there is no such token.
\<close>

theorem extractPatterns_nonempty:
  "extractPatterns args \<noteq> [] \<and>
   extractPatterns args = (if spec_patterns args = [] then [''.''] else spec_patterns args)"
  by (simp add: extractPatterns_spec)

theorem extractPatterns_nonempty_witness:
  "extractPatterns [''--fix'', ''-c'', ''src'', ''--cache''] = [''.''] \<and>
   extractPatterns [] = [''.''] \<and>
   extractPatterns [''src'', ''-f'', ''json'', ''lib''] = [''src'', ''lib'']"
proof -
  have "spec_patterns [''--fix'', ''-c'', ''src'', ''--cache''] = []"
    and "spec_patterns [] = []"
    and "spec_patterns [''src'', ''-f'', ''json'', ''lib''] = [''src'', ''lib'']"
    by (simp_all add: isOptionToken_def optionsWithValues_def)
  then show ?thesis
    using extractPatterns_nonempty [of "[''--fix'', ''-c'', ''src'', ''--cache'']"]
      extractPatterns_nonempty [of "[]"]
      extractPatterns_nonempty [of "[''src'', ''-f'', ''json'', ''lib'']"]
    by simp
qed

text \<open>
  C3, as amended.  Let an unsupported option that takes a value (a member of
  \<open>optionsWithValues\<close> that is in neither supported vocabulary) be followed by a token that
  does not start with a dash, and let the loop reach the option with \<open>skipNext\<close> false, that
  is, the option is not itself the value of the token before it.  Then the following token
  gives no pattern: the patterns collected are those of the tokens before the option followed
  by those of the tokens after the value, and \<open>extractPatterns\<close> returns what it returns
  without the option and its value.  (The proof needs less: every member of
  \<open>optionsWithValues\<close> that the loop reaches with \<open>skipNext\<close> false hides the token after it,
  whatever that token is.)
\<close>

theorem extractPatterns_value_excluded:
  assumes "\<not> snd (extractLoop pre False [])"
    and "opt \<in> set optionsWithValues" and "\<not> inVocabulary opt"
    and "\<not> startsWith v ''-''"
  shows "fst (extractLoop (pre @ opt # v # post) False []) =
           fst (extractLoop pre False []) @ fst (extractLoop post False []) \<and>
         extractPatterns (pre @ opt # v # post) = extractPatterns (pre @ post)"
  using extractLoop_value_excluded(1) [OF assms(1,2), of v post]
    extractLoop_value_excluded(2) [OF assms(1,2), of post]
  by (simp add: extractPatterns_def)

theorem extractPatterns_value_excluded_witness:
  "\<not> snd (extractLoop [''src'', ''-c'', ''cfg.js''] False []) \<and>
   ''--parser'' \<in> set optionsWithValues \<and> \<not> inVocabulary ''--parser'' \<and>
   \<not> startsWith ''babel'' ''-'' \<and>
   extractPatterns [''src'', ''-c'', ''cfg.js'', ''--parser'', ''babel'', ''lib''] =
     [''src'', ''lib'']"
proof -
  have h1: "\<not> snd (extractLoop [''src'', ''-c'', ''cfg.js''] False [])"
    by (simp add: startsWith_def optionsWithValues_def)
  have h2: "''--parser'' \<in> set optionsWithValues"
    by (simp add: optionsWithValues_def)
  have h3: "\<not> inVocabulary ''--parser''"
    by (simp add: inVocabulary_def SUPPORTED_FLAGS_def SUPPORTED_OPTIONS_WITH_VALUES_def)
  have h4: "\<not> startsWith ''babel'' ''-''"
    by (simp add: startsWith_def)
  have "extractPatterns [''src'', ''-c'', ''cfg.js'', ''lib''] = [''src'', ''lib'']"
    by (simp add: extractPatterns_def startsWith_def optionsWithValues_def)
  then have "extractPatterns [''src'', ''-c'', ''cfg.js'', ''--parser'', ''babel'', ''lib''] =
     [''src'', ''lib'']"
    using extractPatterns_value_excluded [OF h1 h2 h3 h4, of "[''lib'']"] by simp
  with h1 h2 h3 h4 show ?thesis by blast
qed

text \<open>
  C3 as it is written fails: in \<open>-c --parser babel\<close> the token \<open>--parser\<close> is an unsupported
  option that takes a value and \<open>babel\<close> follows it, yet \<open>--parser\<close> is read as the value of
  \<open>-c\<close> and \<open>babel\<close> is returned as a pattern.
\<close>

theorem extractPatterns_value_counterexample:
  "''--parser'' \<in> set optionsWithValues \<and> \<not> inVocabulary ''--parser'' \<and>
   \<not> startsWith ''babel'' ''-'' \<and>
   extractPatterns ([''-c''] @ ''--parser'' # ''babel'' # []) = [''babel''] \<and>
   extractPatterns ([''-c''] @ []) = [''.'']"
  by (simp add: extractPatterns_def startsWith_def optionsWithValues_def inVocabulary_def
      SUPPORTED_FLAGS_def SUPPORTED_OPTIONS_WITH_VALUES_def)

subsection \<open>The parser, token by token\<close>

lemma not_takesValue:
  "\<not> takesValue arg \<Longrightarrow>
   arg \<noteq> ''-c'' \<and> arg \<noteq> ''--config'' \<and> arg \<noteq> ''--cache-location'' \<and>
   arg \<noteq> ''--cache-strategy'' \<and> arg \<noteq> ''--max-warnings'' \<and> arg \<noteq> ''-f'' \<and>
   arg \<noteq> ''--format'' \<and> arg \<noteq> ''--ext'' \<and> arg \<noteq> ''--rule''"
  unfolding takesValue_def SUPPORTED_OPTIONS_WITH_VALUES_def by simp

lemma parseArg_novalue:
  assumes "\<not> takesValue arg"
  shows "parseArg jp arg next st = Inr (False, snd (projr (parseArg jp arg Undefined st)))"
  unfolding parseArg_def using not_takesValue [OF assms] by simp

lemma takesValue_cases:
  "takesValue arg \<Longrightarrow>
   arg = ''-c'' \<or> arg = ''--config'' \<or> arg = ''--cache-location'' \<or>
   arg = ''--cache-strategy'' \<or> arg = ''--max-warnings'' \<or> arg = ''-f'' \<or>
   arg = ''--format'' \<or> arg = ''--ext'' \<or> arg = ''--rule''"
  unfolding takesValue_def SUPPORTED_OPTIONS_WITH_VALUES_def by simp

lemma parseArg_value_Str:
  assumes "takesValue arg"
  shows "parseArg jp arg (Str v) st = Inr (True, snd (projr (parseArg jp arg (Str v) st)))"
  using takesValue_cases [OF assms]
  by (elim disjE) (simp_all add: parseArg_def split: option.splits)

lemma parseArg_value_Undefined:
  assumes "takesValue arg"
  shows "parseArg jp arg Undefined st =
     (if arg = ''--ext'' \<or> arg = ''--rule'' then Inl TypeError
      else Inr (True, snd (projr (parseArg jp arg Undefined st))))"
  using takesValue_cases [OF assms]
  by (elim disjE) (simp_all add: parseArg_def)

lemma parseLoop_novalue:
  assumes "\<not> takesValue t"
  shows "\<exists>st'. (\<forall>next. parseArg jp t next st = Inr (False, st')) \<and>
     (\<forall>rest. parseLoop jp (t # rest) st = parseLoop jp rest st')"
proof -
  from parseArg_novalue [OF assms] obtain st' where
    h: "\<forall>next. parseArg jp t next st = Inr (False, st')" by metis
  then have "\<forall>rest. parseLoop jp (t # rest) st = parseLoop jp rest st'" by simp
  with h show ?thesis by blast
qed

lemma parseLoop_value:
  assumes "takesValue t"
  shows "\<exists>st'. parseArg jp t (Str v) st = Inr (True, st') \<and>
     (\<forall>rest. parseLoop jp (t # v # rest) st = parseLoop jp rest st')"
proof -
  from parseArg_value_Str [OF assms] obtain st' where
    h: "parseArg jp t (Str v) st = Inr (True, st')" by blast
  then have "\<forall>rest. parseLoop jp (t # v # rest) st = parseLoop jp rest st'"
    by (simp add: nextArg_def)
  with h show ?thesis by blast
qed

lemma parseLoop_append:
  "optionPosition pre \<Longrightarrow>
   parseLoop jp (pre @ rest) st =
     (case parseLoop jp pre st of Inl e \<Rightarrow> Inl e | Inr st' \<Rightarrow> parseLoop jp rest st')"
proof (induction pre arbitrary: st rule: optionPosition.induct)
  case 1
  show ?case by simp
next
  case (2 t)
  then have nv: "\<not> takesValue t" by simp
  from parseLoop_novalue [OF nv, of jp st] obtain st' where
    "\<forall>rest. parseLoop jp (t # rest) st = parseLoop jp rest st'" by blast
  then have "parseLoop jp (t # rest) st = parseLoop jp rest st'"
    and "parseLoop jp [t] st = parseLoop jp [] st'" by blast+
  then show ?case by simp
next
  case (3 t v rest')
  show ?case
  proof (cases "takesValue t")
    case True
    from parseLoop_value [OF True, of jp v st] obtain st' where
      h: "\<forall>r. parseLoop jp (t # v # r) st = parseLoop jp r st'" by blast
    have "optionPosition rest'" using "3.prems" True by simp
    from "3.IH"(1) [OF True this, of st'] h show ?thesis by simp
  next
    case False
    from parseLoop_novalue [OF False, of jp st] obtain st' where
      h: "\<forall>r. parseLoop jp (t # r) st = parseLoop jp r st'" by blast
    have "optionPosition (v # rest')" using "3.prems" False by simp
    from "3.IH"(2) [OF False this, of st'] h show ?thesis by simp
  qed
qed

lemma parseLoop_returns:
  "optionPosition pre \<Longrightarrow> \<exists>st'. parseLoop jp pre st = Inr st'"
proof (induction pre arbitrary: st rule: optionPosition.induct)
  case 1
  show ?case by simp
next
  case (2 t)
  then have nv: "\<not> takesValue t" by simp
  from parseLoop_novalue [OF nv, of jp st] obtain st' where
    "\<forall>rest. parseLoop jp (t # rest) st = parseLoop jp rest st'" by blast
  then have "parseLoop jp [t] st = parseLoop jp [] st'" by blast
  then show ?case by simp
next
  case (3 t v rest')
  show ?case
  proof (cases "takesValue t")
    case True
    from parseLoop_value [OF True, of jp v st] obtain st' where
      h: "\<forall>r. parseLoop jp (t # v # r) st = parseLoop jp r st'" by blast
    have "optionPosition rest'" using "3.prems" True by simp
    from "3.IH"(1) [OF True this, of st'] h show ?thesis by simp
  next
    case False
    from parseLoop_novalue [OF False, of jp st] obtain st' where
      h: "\<forall>r. parseLoop jp (t # r) st = parseLoop jp r st'" by blast
    have "optionPosition (v # rest')" using "3.prems" False by simp
    from "3.IH"(2) [OF False this, of st'] h show ?thesis by simp
  qed
qed


text \<open>
  The parser throws exactly when the last option it reads is \<open>--ext\<close> or \<open>--rule\<close> and no
  token is left for its value; \<open>runWithAPI\<close> then returns \<open>null\<close>.
\<close>

lemma parseLoop_throws_iff:
  "(\<exists>e. parseLoop jp args st = Inl e) \<longleftrightarrow>
   (args \<noteq> [] \<and> \<not> optionPosition args \<and> (last args = ''--ext'' \<or> last args = ''--rule''))"
proof (induction args arbitrary: st rule: optionPosition.induct)
  case 1
  show ?case by simp
next
  case (2 t)
  show ?case
  proof (cases "takesValue t")
    case True
    show ?thesis
    proof (cases "t = ''--ext'' \<or> t = ''--rule''")
      case e: True
      with parseArg_value_Undefined [OF True, of jp st]
      have "parseArg jp t Undefined st = Inl TypeError" by simp
      with True e show ?thesis by (simp add: nextArg_def)
    next
      case e: False
      with parseArg_value_Undefined [OF True, of jp st] obtain st' where
        "parseArg jp t Undefined st = Inr (True, st')" by auto
      with True e show ?thesis by (simp add: nextArg_def)
    qed
  next
    case False
    from parseArg_novalue [OF False, of jp Undefined st] obtain st' where
      "parseArg jp t Undefined st = Inr (False, st')" by blast
    with False show ?thesis by (simp add: nextArg_def)
  qed
next
  case (3 t v rest)
  show ?case
  proof (cases "takesValue t")
    case True
    from parseLoop_value [OF True, of jp v st] obtain st' where
      h: "\<forall>r. parseLoop jp (t # v # r) st = parseLoop jp r st'" by blast
    have v: "\<not> optionPosition [v] \<Longrightarrow> takesValue v" by simp
    show ?thesis
    proof (cases "rest = []")
      case r: True
      with h have "parseLoop jp (t # v # rest) st = Inr st'" by simp
      with True r show ?thesis by simp
    next
      case r: False
      from "3.IH"(1) [OF True, of st'] h True r show ?thesis by simp
    qed
  next
    case False
    from parseLoop_novalue [OF False, of jp st] obtain st' where
      h: "\<forall>r. parseLoop jp (t # r) st = parseLoop jp r st'" by blast
    from "3.IH"(2) [OF False, of st'] h False show ?thesis by simp
  qed
qed

lemma parseESLintOptions_throws_iff:
  "(\<exists>e. parseESLintOptions jp args = Inl e) \<longleftrightarrow>
   (args \<noteq> [] \<and> \<not> optionPosition args \<and> (last args = ''--ext'' \<or> last args = ''--rule''))"
  using parseLoop_throws_iff [of jp args initialVars]
  by (auto simp: parseESLintOptions_def split: sum.splits)

lemma has_eq_not_label:
  assumes "CHR ''='' \<in> set tok"
  shows "tok \<noteq> ''--fix'' \<and> tok \<noteq> ''--fix-dry-run'' \<and> tok \<noteq> ''--cache'' \<and>
     tok \<noteq> ''--no-cache'' \<and> tok \<noteq> ''--no-error-on-unmatched-pattern'' \<and> \<not> takesValue tok"
  using assms no_eq_in_value_option [of tok] by (auto simp: takesValue_def)

lemma parseArg_has_eq:
  assumes "CHR ''='' \<in> set tok"
  shows "parseArg jp tok next st = Inr (False, st)"
  unfolding parseArg_def
  using has_eq_not_label [OF assms] not_takesValue [of tok] by simp

lemma parseLoop_has_eq:
  "CHR ''='' \<in> set tok \<Longrightarrow> parseLoop jp (tok # post) st = parseLoop jp post st"
  by (simp add: parseArg_has_eq)

lemma parseLoop_remove_eq_token:
  assumes "optionPosition pre" and "CHR ''='' \<in> set tok"
  shows "parseLoop jp (pre @ tok # post) st = parseLoop jp (pre @ post) st"
  using parseLoop_append [OF assms(1), of jp "tok # post" st]
    parseLoop_append [OF assms(1), of jp post st] parseLoop_has_eq [OF assms(2), of jp post]
  by (cases "parseLoop jp pre st") (simp_all del: parseLoop.simps)

lemma parseArg_keeps_extensions:
  assumes "arg \<noteq> ''--ext''" and "parseArg jp arg next s = Inr (c, s1)"
  shows "extensions s1 = extensions s"
proof (cases "takesValue arg")
  case False
  from assms(2) parseArg_novalue [OF False, of jp "next" s]
  have "s1 = snd (projr (parseArg jp arg Undefined s))" by simp
  with not_takesValue [OF False] show ?thesis
    unfolding parseArg_def by simp
next
  case True
  from takesValue_cases [OF True] assms show ?thesis
    by (elim disjE) (auto simp: parseArg_def split: jsstr.splits option.splits)
qed

lemma parseLoop_keeps_extensions:
  "''--ext'' \<notin> set args \<Longrightarrow> parseLoop jp args s = Inr s' \<Longrightarrow> extensions s' = extensions s"
proof (induction jp args s rule: parseLoop.induct)
  case (1 jp st)
  then show ?case by simp
next
  case (2 jp arg rest st)
  from "2.prems"(2) obtain c s1 where
    step: "parseArg jp arg (nextArg rest) st = Inr (c, s1)"
    and loop: "parseLoop jp (if c then tl rest else rest) s1 = Inr s'"
    by (auto split: sum.splits)
  have "''--ext'' \<notin> set (if c then tl rest else rest)"
    using "2.prems"(1) by (cases rest) auto
  from "2.IH" [OF step refl this loop] have "extensions s' = extensions s1" .
  moreover have "extensions s1 = extensions st"
    using parseArg_keeps_extensions [OF _ step] "2.prems"(1) by auto
  ultimately show ?case by simp
qed

lemma parseLoop_ext:
  "parseLoop jp (''--ext'' # v # post) st =
     parseLoop jp post (st\<lparr>extensions := map normalizeExt (jsSplit CHR '','' v)\<rparr>)"
  by (simp add: parseArg_def nextArg_def)

lemma normalized_nonempty: "map normalizeExt (jsSplit c v) \<noteq> []"
  by (simp add: jsSplit_nonempty)

lemma extensions_initial: "extensions (initialVars :: 'j parseVars) = []"
  by (simp add: initialVars_def)

lemma parse_extensions:
  "parseLoop jp args initialVars = Inr st \<Longrightarrow>
   \<exists>r. parseESLintOptions jp args = Inr r \<and>
     extensions r = (if extensions st = [] then DEFAULT_EXTENSIONS else extensions st)"
  by (simp add: parseESLintOptions_def)

lemma parse_Inr_loop:
  "parseESLintOptions jp args = Inr r \<Longrightarrow>
   \<exists>st. parseLoop jp args initialVars = Inr st \<and>
     extensions r = (if extensions st = [] then DEFAULT_EXTENSIONS else extensions st)"
  by (auto simp: parseESLintOptions_def split: sum.splits)

lemma ext_given:
  assumes pre: "optionPosition pre" and post: "''--ext'' \<notin> set post"
  shows "(\<forall>r. parseESLintOptions jp (pre @ ''--ext'' # v # post) = Inr r \<longrightarrow>
            extensions r = map normalizeExt (jsSplit CHR '','' v)) \<and>
         (optionPosition post \<longrightarrow>
            (\<exists>r. parseESLintOptions jp (pre @ ''--ext'' # v # post) = Inr r \<and>
               extensions r = map normalizeExt (jsSplit CHR '','' v)))"
proof -
  let ?X = "map normalizeExt (jsSplit CHR '','' v)"
  let ?args = "pre @ ''--ext'' # v # post"
  from parseLoop_returns [OF pre, of jp initialVars] obtain s1 where
    s1: "parseLoop jp pre initialVars = Inr s1" by blast
  have loop: "parseLoop jp ?args initialVars = parseLoop jp post (s1\<lparr>extensions := ?X\<rparr>)"
    using parseLoop_append [OF pre, of jp "''--ext'' # v # post" initialVars] s1
    by (simp add: parseLoop_ext del: parseLoop.simps)
  have keep: "extensions st = ?X" if "parseLoop jp ?args initialVars = Inr st" for st
    using parseLoop_keeps_extensions [OF post, of jp "s1\<lparr>extensions := ?X\<rparr>" st] that loop
    by simp
  have a: "extensions r = ?X" if "parseESLintOptions jp ?args = Inr r" for r
    using parse_Inr_loop [OF that] keep normalized_nonempty [of "CHR '',''" v] by auto
  have b: "\<exists>r. parseESLintOptions jp ?args = Inr r \<and> extensions r = ?X" if "optionPosition post"
  proof -
    from parseLoop_returns [OF that, of jp "s1\<lparr>extensions := ?X\<rparr>"] loop obtain st where
      "parseLoop jp ?args initialVars = Inr st" by auto
    from parse_extensions [OF this] a show ?thesis by auto
  qed
  from a b show ?thesis by blast
qed

lemma ext_absent:
  assumes "''--ext'' \<notin> set args"
  shows "(\<forall>r. parseESLintOptions jp args = Inr r \<longrightarrow> extensions r = DEFAULT_EXTENSIONS) \<and>
         (optionPosition args \<longrightarrow>
            (\<exists>r. parseESLintOptions jp args = Inr r \<and> extensions r = DEFAULT_EXTENSIONS))"
proof -
  have a: "extensions r = DEFAULT_EXTENSIONS" if "parseESLintOptions jp args = Inr r" for r
    using parse_Inr_loop [OF that] parseLoop_keeps_extensions [OF assms, of jp initialVars]
    by (auto simp: extensions_initial)
  have b: "\<exists>r. parseESLintOptions jp args = Inr r \<and> extensions r = DEFAULT_EXTENSIONS"
    if "optionPosition args"
  proof -
    from parseLoop_returns [OF that, of jp initialVars] obtain st where
      "parseLoop jp args initialVars = Inr st" by auto
    from parse_extensions [OF this] a show ?thesis by auto
  qed
  from a b show ?thesis by blast
qed


subsection \<open>Options in \<open>=\<close> form\<close>

lemma takesValue_inVocabulary: "takesValue t \<Longrightarrow> inVocabulary (nameBeforeEq t)"
  by (simp add: takesValue_name inVocabulary_def takesValue_def)

lemma spec_unsupported_nonopt:
  "\<not> isOptionToken v \<Longrightarrow> spec_unsupported (v # rest) = spec_unsupported rest"
  by (cases rest) simp_all

lemma spec_unsupported_value:
  "takesValue t \<Longrightarrow> spec_unsupported (t # ts) = spec_unsupported (drop 1 ts)"
  using takesValue_isOption [of t] takesValue_inVocabulary [of t]
  by (cases ts) simp_all

lemma spec_unsupported_novalue:
  "\<not> takesValue t \<Longrightarrow> spec_unsupported (t # ts) = reported t @ spec_unsupported ts"
  by (cases ts) (simp_all add: reported_def spec_unsupported_nonopt)

lemma spec_unsupported_not_supported:
  "n \<in> set (spec_unsupported args) \<Longrightarrow> \<not> inVocabulary n"
  by (induction args rule: spec_unsupported.induct) (auto split: if_splits)

lemma spec_unsupported_remove:
  assumes tok: "\<not> takesValue tok" "reported tok = []"
  shows "optionPosition pre \<Longrightarrow>
     spec_unsupported (pre @ tok # post) = spec_unsupported (pre @ post)"
proof (induction pre rule: optionPosition.induct)
  case 1
  show ?case using tok by (simp add: spec_unsupported_novalue del: spec_unsupported.simps(2,3))
next
  case (2 t)
  then have "\<not> takesValue t" by simp
  then show ?case using tok
    by (simp add: spec_unsupported_novalue del: spec_unsupported.simps(2,3))
next
  case (3 t v rest)
  show ?case
  proof (cases "takesValue t")
    case True
    then show ?thesis using 3
      by (simp add: spec_unsupported_value del: spec_unsupported.simps(2,3))
  next
    case False
    then show ?thesis using 3
      by (simp add: spec_unsupported_novalue del: spec_unsupported.simps(2,3))
  qed
qed

lemma supported_eq_token:
  assumes "includesChar tok CHR ''=''" and "inVocabulary (optionNameOf tok)"
  shows "\<not> takesValue tok" and "reported tok = []" and "CHR ''='' \<in> set tok"
  using assms no_eq_in_value_option [of tok]
  by (auto simp: includesChar_def takesValue_def reported_def optionNameOf_eq)


text \<open>
  C5, as amended.  Let \<open>--ext\<close> be read as an option (the tokens before it leave no option
  waiting for its value), let \<open>v\<close> be the token after it, and let no \<open>--ext\<close> token come
  later.  Then whenever \<open>parseESLintOptions\<close> returns, \<open>extensions\<close> is \<open>v\<close> split at its
  commas with a dot put before each entry that lacks one, and nothing of the default list; and
  it does return when the tokens after \<open>v\<close> leave no option waiting for its value.  When the
  token sequence holds no \<open>--ext\<close> at all, \<open>extensions\<close> is the default list of eight, under
  the same two provisos.  The two examples of the specification are part of the statement.
\<close>

theorem parseESLintOptions_extensions:
  "(optionPosition pre \<and> ''--ext'' \<notin> set post \<longrightarrow>
      (\<forall>r. parseESLintOptions jp (pre @ ''--ext'' # v # post) = Inr r \<longrightarrow>
            extensions r = map normalizeExt (jsSplit CHR '','' v)) \<and>
      (optionPosition post \<longrightarrow>
         (\<exists>r. parseESLintOptions jp (pre @ ''--ext'' # v # post) = Inr r \<and>
            extensions r = map normalizeExt (jsSplit CHR '','' v)))) \<and>
   (''--ext'' \<notin> set args \<longrightarrow>
      (\<forall>r. parseESLintOptions jp args = Inr r \<longrightarrow> extensions r = DEFAULT_EXTENSIONS) \<and>
      (optionPosition args \<longrightarrow>
         (\<exists>r. parseESLintOptions jp args = Inr r \<and> extensions r = DEFAULT_EXTENSIONS))) \<and>
   DEFAULT_EXTENSIONS = [''.js'', ''.jsx'', ''.ts'', ''.tsx'', ''.mjs'', ''.cjs'', ''.mts'', ''.cts''] \<and>
   map_sum id extensions (parseESLintOptions jp [''--ext'', ''.ts,.tsx'']) = Inr [''.ts'', ''.tsx''] \<and>
   map_sum id extensions (parseESLintOptions jp [''--ext'', ''js,jsx'']) = Inr [''.js'', ''.jsx'']"
proof -
  have "map_sum id extensions (parseESLintOptions jp [''--ext'', ''.ts,.tsx'']) =
      Inr [''.ts'', ''.tsx'']"
    by (simp add: parseESLintOptions_def parseArg_def nextArg_def initialVars_def
        normalizeExt_def startsWith_def)
  moreover have "map_sum id extensions (parseESLintOptions jp [''--ext'', ''js,jsx'']) =
      Inr [''.js'', ''.jsx'']"
    by (simp add: parseESLintOptions_def parseArg_def nextArg_def initialVars_def
        normalizeExt_def startsWith_def)
  ultimately show ?thesis
    using ext_given [of pre post jp v] ext_absent [of args jp]
    by (simp add: DEFAULT_EXTENSIONS_def)
qed

theorem parseESLintOptions_extensions_witness:
  "optionPosition [''src'', ''-c'', ''x.js''] \<and> ''--ext'' \<notin> set [''--fix''] \<and>
   optionPosition [''--fix''] \<and>
   (\<exists>r. parseESLintOptions (\<lambda>_. None :: unit option)
          [''src'', ''-c'', ''x.js'', ''--ext'', ''ts,tsx'', ''--fix''] = Inr r \<and>
        extensions r = [''.ts'', ''.tsx'']) \<and>
   ''--ext'' \<notin> set [''src'', ''--fix''] \<and> optionPosition [''src'', ''--fix''] \<and>
   (\<exists>r. parseESLintOptions (\<lambda>_. None :: unit option) [''src'', ''--fix''] = Inr r \<and>
        extensions r = DEFAULT_EXTENSIONS)"
proof -
  have h1: "optionPosition [''src'', ''-c'', ''x.js'']"
    and h2: "''--ext'' \<notin> set [''--fix'']"
    and h3: "optionPosition [''--fix'']"
    and h4: "''--ext'' \<notin> set [''src'', ''--fix'']"
    and h5: "optionPosition [''src'', ''--fix'']"
    by (simp_all add: takesValue_def SUPPORTED_OPTIONS_WITH_VALUES_def)
  have n: "map normalizeExt (jsSplit CHR '','' ''ts,tsx'') = [''.ts'', ''.tsx'']"
    by (simp add: normalizeExt_def startsWith_def)
  from h1 h2 h3 h4 h5 n
    parseESLintOptions_extensions
      [of "[''src'', ''-c'', ''x.js'']" "[''--fix'']" "\<lambda>_. None :: unit option" "''ts,tsx''"
        "[''src'', ''--fix'']"]
  show ?thesis by simp
qed

text \<open>
  C5 as it is written fails twice: with \<open>--ext js --ext ts\<close> the first list is dropped, and
  in \<open>-c --ext ts\<close> the token \<open>--ext\<close> is the value of \<open>-c\<close>, so the default list stays.
\<close>

theorem parseESLintOptions_extensions_counterexample:
  "map_sum id extensions
     (parseESLintOptions (\<lambda>_. None :: unit option) [''--ext'', ''js'', ''--ext'', ''ts'']) =
     Inr [''.ts''] \<and>
   map normalizeExt (jsSplit CHR '','' ''js'') = [''.js''] \<and>
   map_sum id extensions
     (parseESLintOptions (\<lambda>_. None :: unit option) [''-c'', ''--ext'', ''ts'']) =
     Inr [''.js'', ''.jsx'', ''.ts'', ''.tsx'', ''.mjs'', ''.cjs'', ''.mts'', ''.cts''] \<and>
   map normalizeExt (jsSplit CHR '','' ''ts'') = [''.ts'']"
  by (simp add: parseESLintOptions_def parseArg_def nextArg_def initialVars_def
      normalizeExt_def startsWith_def DEFAULT_EXTENSIONS_def)


subsection \<open>Rule overrides\<close>

lemma parseInt_prototype_key:
  "k \<in> set objectPrototypeKeys \<Longrightarrow> parseInt (Str k) = NaN"
  unfolding objectPrototypeKeys_def
  by (auto simp: parseInt_def asciiWhiteSpace_def unicodeWhiteSpace_def startsWith_def isDigit_def)

lemma config_of_severityMap:
  "\<not> startsWith s ''['' \<Longrightarrow>
   (case severityMap s of
      Own n \<Rightarrow> Some (name, Severity n)
    | Inherited \<Rightarrow> Some (name, RawString s)
    | Missing \<Rightarrow>
        (case parseInt (Str s) of
           NaN \<Rightarrow> Some (name, RawString s)
         | Num n \<Rightarrow> Some (name, Severity n))) = Some (name, spec_config jp s)"
  using parseInt_prototype_key [of s]
  by (auto simp: severityMap_def spec_config_def split: jsnum.splits)

lemma parseRuleValue_spec: "parseRuleValue jp v = spec_ruleValue jp v"
proof (cases "CHR '':'' \<in> set v")
  case False
  then show ?thesis by (simp add: parseRuleValue_def spec_ruleValue_def indexOf_def)
next
  case True
  let ?n = "length (spec_ruleName v)"
  have i: "indexOf v CHR '':'' = int ?n"
    using True by (simp add: indexOf_def spec_ruleName_def)
  have t: "take ?n v = spec_ruleName v"
    unfolding spec_ruleName_def by (rule takeWhile_eq_take [symmetric])
  have d: "nat (int ?n + 1) = Suc ?n" by simp
  show ?thesis
  proof (cases "startsWith (drop (Suc ?n) v) ''[''")
    case b: True
    then show ?thesis
      using True
      by (simp add: parseRuleValue_def spec_ruleValue_def i t d Let_def spec_config_def
          split: option.splits)
  next
    case b: False
    then show ?thesis
      using True config_of_severityMap [OF b, of "spec_ruleName v" jp]
      by (simp add: parseRuleValue_def spec_ruleValue_def i t d Let_def)
  qed
qed


lemma parseLoop_rule:
  assumes "spec_ruleName v \<noteq> ''__proto__''"
  shows "parseLoop jp (''--rule'' # v # rest) st =
     parseLoop jp rest (st\<lparr>rules := spec_ruleStep jp (rules st) v\<rparr>)"
proof (cases "spec_ruleValue jp v")
  case None
  then show ?thesis
    by (simp add: parseArg_def nextArg_def parseRuleValue_spec spec_ruleStep_def)
next
  case (Some p)
  obtain name config where p: "p = (name, config)" by (cases p)
  from Some p assms have "name \<noteq> ''__proto__''"
    by (auto simp: spec_ruleValue_def split: if_splits)
  with Some p show ?thesis
    by (simp add: parseArg_def nextArg_def parseRuleValue_spec spec_ruleStep_def assignRule_def)
qed

lemma parseLoop_ruleArgs:
  "\<forall>v\<in>set vs. spec_ruleName v \<noteq> ''__proto__'' \<Longrightarrow>
   parseLoop jp (ruleArgs vs) st = Inr (st\<lparr>rules := foldl (spec_ruleStep jp) (rules st) vs\<rparr>)"
proof (induction vs arbitrary: st)
  case Nil
  show ?case by (simp add: ruleArgs_def)
next
  case (Cons v vs)
  have "ruleArgs (v # vs) = ''--rule'' # v # ruleArgs vs" by (simp add: ruleArgs_def)
  then show ?case
    using Cons.IH [of "st\<lparr>rules := spec_ruleStep jp (rules st) v\<rparr>"] Cons.prems
    by (simp add: parseLoop_rule del: parseLoop.simps)
qed

lemma parse_ruleArgs:
  assumes "\<forall>v\<in>set vs. spec_ruleName v \<noteq> ''__proto__''"
  shows "parseESLintOptions jp (ruleArgs vs) =
     Inr \<lparr>eslintOptions =
            \<lparr>fix_flag = None, overrideConfigFile = None, cache = None, cacheLocation = None,
             cacheStrategy = None, errorOnUnmatchedPattern = None,
             overrideConfig =
               (if Mapping.is_empty (spec_rules jp vs) then None else Some (spec_rules jp vs))\<rparr>,
          maxWarnings = None, format = Str ''stylish'', extensions = DEFAULT_EXTENSIONS\<rparr>"
  using parseLoop_ruleArgs [OF assms, of jp initialVars]
  by (simp add: parseESLintOptions_def spec_rules_def initialVars_def)

lemma spec_rules_snoc:
  "spec_rules jp (vs @ [v]) = spec_ruleStep jp (spec_rules jp vs) v"
  by (simp add: spec_rules_def)

lemma spec_rules_last_wins:
  assumes "spec_ruleValue jp v = Some (name, config)"
  shows "Mapping.lookup (spec_rules jp (vs @ [v])) name = Some config"
    and "n \<noteq> name \<Longrightarrow>
      Mapping.lookup (spec_rules jp (vs @ [v])) n = Mapping.lookup (spec_rules jp vs) n"
  using assms by (simp_all add: spec_rules_snoc spec_ruleStep_def lookup_update lookup_update_neq)


text \<open>
  C6.  The rule named \<open>__proto__\<close> is lost.  \<open>parseRuleValue\<close> splits \<open>__proto__:2\<close> into
  the name \<open>__proto__\<close> and the severity 2, as it does for every name, and the mapping of
  the specification holds the entry; but \<open>rules["__proto__"] = 2\<close> creates no property, so
  \<open>parseESLintOptions\<close> returns no rule override at all for \<open>--rule __proto__:2\<close>, and
  only the other rule when there is one.
\<close>

theorem rule_named_proto_is_dropped:
  "parseRuleValue jp ''__proto__:2'' = Some (''__proto__'', Severity 2) \<and>
   Mapping.lookup (spec_rules jp [''__proto__:2'']) ''__proto__'' = Some (Severity 2) \<and>
   map_sum id (overrideConfig \<circ> eslintOptions)
     (parseESLintOptions jp [''--rule'', ''__proto__:2'']) = Inr None \<and>
   map_sum id (overrideConfig \<circ> eslintOptions)
     (parseESLintOptions jp [''--rule'', ''no-console:2'', ''--rule'', ''__proto__:error'']) =
     Inr (Some (Mapping.update ''no-console'' (Severity 2) Mapping.empty))"
proof -
  have "Mapping.lookup (spec_rules jp [''__proto__:2'']) ''__proto__'' = Some (Severity 2)"
    using spec_rules_last_wins(1) [of jp "''__proto__:2''" "''__proto__''" "Severity 2" "[]"]
      parseRuleValue_spec [of jp "''__proto__:2''"]
    by (simp add: parseRuleValue_def indexOf_def startsWith_def severityMap_def
        objectPrototypeKeys_def parseInt_def asciiWhiteSpace_def unicodeWhiteSpace_def
        isDigit_def digitsValue_def digitValue_def)
  moreover have "parseRuleValue jp ''__proto__:2'' = Some (''__proto__'', Severity 2)"
    by (simp add: parseRuleValue_def indexOf_def startsWith_def severityMap_def
        objectPrototypeKeys_def parseInt_def asciiWhiteSpace_def unicodeWhiteSpace_def
        isDigit_def digitsValue_def digitValue_def)
  moreover have "map_sum id (overrideConfig \<circ> eslintOptions)
     (parseESLintOptions jp [''--rule'', ''__proto__:2'']) = Inr None"
    by (simp add: parseESLintOptions_def parseArg_def nextArg_def initialVars_def
        parseRuleValue_def indexOf_def startsWith_def severityMap_def objectPrototypeKeys_def
        parseInt_def asciiWhiteSpace_def unicodeWhiteSpace_def isDigit_def digitsValue_def
        digitValue_def assignRule_def)
  moreover have "map_sum id (overrideConfig \<circ> eslintOptions)
     (parseESLintOptions jp [''--rule'', ''no-console:2'', ''--rule'', ''__proto__:error'']) =
     Inr (Some (Mapping.update ''no-console'' (Severity 2) Mapping.empty))"
    by (simp add: parseESLintOptions_def parseArg_def nextArg_def initialVars_def
        parseRuleValue_def indexOf_def startsWith_def severityMap_def objectPrototypeKeys_def
        parseInt_def asciiWhiteSpace_def unicodeWhiteSpace_def isDigit_def digitsValue_def
        digitValue_def assignRule_def)
  ultimately show ?thesis by blast
qed

text \<open>
  For every other name the overrides are what the specification says.  Let no value of the
  token sequence \<open>--rule v1 --rule v2 ...\<close> have the name \<open>__proto__\<close>.  Then
  \<open>parseESLintOptions\<close> returns, with every other field at its default, the mapping
  \<open>spec_rules\<close> as \<open>overrideConfig\<close> (and no \<open>overrideConfig\<close> when that mapping is empty,
  which is when no value holds a colon): each value is cut at its first colon, the
  configuration is read as the specification describes, and a later value for a name
  replaces an earlier one.  The two examples of the specification are part of the statement.
\<close>

theorem rule_overrides_accumulate:
  "((\<forall>v\<in>set vs. spec_ruleName v \<noteq> ''__proto__'') \<longrightarrow>
     parseESLintOptions jp (ruleArgs vs) =
       Inr \<lparr>eslintOptions =
              \<lparr>fix_flag = None, overrideConfigFile = None, cache = None, cacheLocation = None,
               cacheStrategy = None, errorOnUnmatchedPattern = None,
               overrideConfig =
                 (if Mapping.is_empty (spec_rules jp vs) then None
                  else Some (spec_rules jp vs))\<rparr>,
            maxWarnings = None, format = Str ''stylish'', extensions = DEFAULT_EXTENSIONS\<rparr>) \<and>
   (\<forall>name config. spec_ruleValue jp v = Some (name, config) \<longrightarrow>
        Mapping.lookup (spec_rules jp (vs @ [v])) name = Some config \<and>
        (\<forall>n. n \<noteq> name \<longrightarrow>
           Mapping.lookup (spec_rules jp (vs @ [v])) n = Mapping.lookup (spec_rules jp vs) n)) \<and>
   map_sum id (overrideConfig \<circ> eslintOptions)
     (parseESLintOptions jp [''--rule'', ''no-console:2'']) =
     Inr (Some (Mapping.update ''no-console'' (Severity 2) Mapping.empty)) \<and>
   map_sum id (overrideConfig \<circ> eslintOptions)
     (parseESLintOptions jp [''--rule'', ''no-debugger:error'']) =
     Inr (Some (Mapping.update ''no-debugger'' (Severity 2) Mapping.empty))"
proof -
  have "map_sum id (overrideConfig \<circ> eslintOptions)
     (parseESLintOptions jp [''--rule'', ''no-console:2'']) =
     Inr (Some (Mapping.update ''no-console'' (Severity 2) Mapping.empty))"
    by (simp add: parseESLintOptions_def parseArg_def nextArg_def initialVars_def
        parseRuleValue_def indexOf_def startsWith_def severityMap_def objectPrototypeKeys_def
        parseInt_def asciiWhiteSpace_def unicodeWhiteSpace_def isDigit_def digitsValue_def
        digitValue_def assignRule_def)
  moreover have "map_sum id (overrideConfig \<circ> eslintOptions)
     (parseESLintOptions jp [''--rule'', ''no-debugger:error'']) =
     Inr (Some (Mapping.update ''no-debugger'' (Severity 2) Mapping.empty))"
    by (simp add: parseESLintOptions_def parseArg_def nextArg_def initialVars_def
        parseRuleValue_def indexOf_def startsWith_def severityMap_def assignRule_def)
  ultimately show ?thesis
    using parse_ruleArgs [of vs jp] spec_rules_last_wins [of jp v]
    by blast
qed

theorem rule_overrides_accumulate_witness:
  "(\<forall>v\<in>set [''no-console:warn'', ''quotes'', ''no-console:2'']. spec_ruleName v \<noteq> ''__proto__'') \<and>
   map_sum id (overrideConfig \<circ> eslintOptions)
     (parseESLintOptions (\<lambda>_. None :: unit option)
        [''--rule'', ''no-console:warn'', ''--rule'', ''quotes'', ''--rule'', ''no-console:2'']) =
     Inr (Some (spec_rules (\<lambda>_. None) [''no-console:warn'', ''quotes'', ''no-console:2''])) \<and>
   Mapping.lookup (spec_rules (\<lambda>_. None :: unit option)
        [''no-console:warn'', ''quotes'', ''no-console:2'']) ''no-console'' = Some (Severity 2)"
proof -
  let ?vs = "[''no-console:warn'', ''quotes'', ''no-console:2'']"
  let ?jp = "\<lambda>_ :: string. None :: unit option"
  have h: "\<forall>v\<in>set ?vs. spec_ruleName v \<noteq> ''__proto__''"
    by (simp add: spec_ruleName_def)
  have v: "spec_ruleValue ?jp ''no-console:2'' = Some (''no-console'', Severity 2)"
    by (simp add: spec_ruleValue_def spec_ruleName_def spec_config_def startsWith_def
        parseInt_def asciiWhiteSpace_def unicodeWhiteSpace_def isDigit_def digitsValue_def
        digitValue_def)
  have l: "Mapping.lookup (spec_rules ?jp ?vs) ''no-console'' = Some (Severity 2)"
    using rule_overrides_accumulate [of "[''no-console:warn'', ''quotes'']" ?jp "''no-console:2''"] v
    by simp
  then have ne: "\<not> Mapping.is_empty (spec_rules ?jp ?vs)"
    by (auto simp: Mapping.is_empty_def keys_dom_lookup)
  have a: "ruleArgs ?vs =
      [''--rule'', ''no-console:warn'', ''--rule'', ''quotes'', ''--rule'', ''no-console:2'']"
    by (simp add: ruleArgs_def)
  from h ne a rule_overrides_accumulate [of ?vs ?jp "''x''"]
  have "map_sum id (overrideConfig \<circ> eslintOptions)
     (parseESLintOptions ?jp
        [''--rule'', ''no-console:warn'', ''--rule'', ''quotes'', ''--rule'', ''no-console:2'']) =
     Inr (Some (spec_rules ?jp ?vs))"
    by simp
  with h l show ?thesis by blast
qed

subsection \<open>The batch loop\<close>

lemma trace_emit: "trace (emit e s) = trace s @ [e]"
  by (simp add: emit_def)

lemma world_emit: "world (emit e s) = world s"
  by (simp add: emit_def)

lemma perform_eq:
  "perform e f s = (fst (f (world s)), \<lparr>world = snd (f (world s)), trace = trace s @ [e]\<rparr>)"
  by (simp add: perform_def split: prod.splits)

lemma chunks_Nil: "chunks n [] = []"
  by (simp add: chunks.simps)

lemma chunks_step: "0 < n \<Longrightarrow> xs \<noteq> [] \<Longrightarrow> chunks n xs = take n xs # chunks n (drop n xs)"
  by (subst chunks.simps) simp

lemma concat_chunks: "0 < n \<Longrightarrow> concat (chunks n xs) = xs"
proof (induction n xs rule: chunks.induct)
  case (1 n xs)
  show ?case
  proof (cases "xs = []")
    case True
    then show ?thesis by (simp add: chunks_Nil)
  next
    case False
    with 1 show ?thesis by (simp add: chunks_step)
  qed
qed

lemma chunks_bounds: "c \<in> set (chunks n xs) \<Longrightarrow> c \<noteq> [] \<and> length c \<le> n"
proof (induction n xs rule: chunks.induct)
  case (1 n xs)
  show ?case
  proof (cases "n = 0 \<or> xs = []")
    case True
    with "1.prems" show ?thesis by (simp add: chunks.simps)
  next
    case False
    with "1.prems" have "c = take n xs \<or> c \<in> set (chunks n (drop n xs))"
      by (simp add: chunks_step)
    with False 1 show ?thesis by auto
  qed
qed

lemma sum_length_chunks: "0 < n \<Longrightarrow> sum_list (map length (chunks n xs)) = length xs"
  using concat_chunks [of n xs] length_concat [of "chunks n xs"] by simp

lemma lintBatches_spec:
  "lintBatches env files i acc s = spec_lintChunks env (chunks BATCH_SIZE (drop i files)) acc s"
proof (induction env files i acc s rule: lintBatches.induct)
  case (1 env files i allResults s)
  show ?case
  proof (cases "i < length files")
    case False
    then show ?thesis by (simp add: lintBatches.simps chunks_Nil)
  next
    case True
    let ?batch = "take BATCH_SIZE (drop i files)"
    have c: "chunks BATCH_SIZE (drop i files) =
        ?batch # chunks BATCH_SIZE (drop (i + BATCH_SIZE) files)"
      using True by (simp add: chunks_step BATCH_SIZE_def add.commute)
    show ?thesis
    proof (cases "perform (LintFiles ?batch) (eslint_lintFiles env ?batch) s")
      case (Pair a s')
      show ?thesis
      proof (cases a)
        case None
        with Pair True c show ?thesis by (simp add: lintBatches.simps)
      next
        case (Some results)
        from 1 [OF True refl Pair [symmetric, unfolded Some] refl] Pair Some True c
        show ?thesis by (simp add: lintBatches.simps [of env files i])
      qed
    qed
  qed
qed

lemma engineResults_Cons:
  "engineResults env (c # cs) w =
     (case fst (eslint_lintFiles env c w) of
        None \<Rightarrow> None
      | Some r \<Rightarrow> map_option ((#) r) (engineResults env cs (snd (eslint_lintFiles env c w))))"
  by (cases "eslint_lintFiles env c w") (simp split: option.splits)

lemma spec_lintChunks_Cons:
  "spec_lintChunks env (c # cs) acc s =
     (case fst (eslint_lintFiles env c (world s)) of
        None \<Rightarrow>
          (None, \<lparr>world = snd (eslint_lintFiles env c (world s)), trace = trace s @ [LintFiles c]\<rparr>)
      | Some r \<Rightarrow>
          spec_lintChunks env cs (acc @ r)
            (emit (ProgressIncrement (length c))
               \<lparr>world = snd (eslint_lintFiles env c (world s)),
                trace = trace s @ [LintFiles c]\<rparr>))"
  by (simp add: perform_eq split: option.splits)

lemma spec_lintChunks_result:
  "fst (spec_lintChunks env cs acc s) =
     map_option (\<lambda>rss. acc @ concat rss) (engineResults env cs (world s))"
proof (induction cs arbitrary: acc s)
  case Nil
  show ?case by simp
next
  case (Cons c cs)
  show ?case
  proof (cases "fst (eslint_lintFiles env c (world s))")
    case None
    then show ?thesis
      by (simp add: spec_lintChunks_Cons engineResults_Cons
          del: spec_lintChunks.simps(2) engineResults.simps(2))
  next
    case (Some r)
    then show ?thesis
      using Cons [of "acc @ r"
          "emit (ProgressIncrement (length c))
             \<lparr>world = snd (eslint_lintFiles env c (world s)), trace = trace s @ [LintFiles c]\<rparr>"]
      by (simp add: spec_lintChunks_Cons engineResults_Cons world_emit option.map_comp comp_def
          del: spec_lintChunks.simps(2) engineResults.simps(2))
  qed
qed

lemma spec_lintChunks_trace:
  "engineResults env cs (world s) \<noteq> None \<Longrightarrow>
   trace (snd (spec_lintChunks env cs acc s)) =
     trace s @ concat (map (\<lambda>c. [LintFiles c, ProgressIncrement (length c)]) cs)"
proof (induction cs arbitrary: acc s)
  case Nil
  show ?case by simp
next
  case (Cons c cs)
  from Cons.prems obtain r where r: "fst (eslint_lintFiles env c (world s)) = Some r"
    by (cases "fst (eslint_lintFiles env c (world s))")
      (simp_all add: engineResults_Cons del: engineResults.simps(2))
  let ?s' = "emit (ProgressIncrement (length c))
             \<lparr>world = snd (eslint_lintFiles env c (world s)), trace = trace s @ [LintFiles c]\<rparr>"
  have "engineResults env cs (world ?s') \<noteq> None"
    using Cons.prems r
    by (simp add: world_emit engineResults_Cons del: engineResults.simps(2))
  from Cons.IH [OF this, of "acc @ r"] r show ?case
    by (simp add: spec_lintChunks_Cons trace_emit del: spec_lintChunks.simps(2))
qed

lemma lintCalls_append: "lintCalls (a @ b) = lintCalls a @ lintCalls b"
  by (induction a rule: lintCalls.induct) simp_all

lemma increments_append: "increments (a @ b) = increments a @ increments b"
  by (induction a rule: increments.induct) simp_all

lemma lintCalls_batches:
  "lintCalls (concat (map (\<lambda>c. [LintFiles c, ProgressIncrement (length c)]) cs)) = cs"
  by (induction cs) simp_all

lemma increments_batches:
  "increments (concat (map (\<lambda>c. [LintFiles c, ProgressIncrement (length c)]) cs)) = map length cs"
  by (induction cs) simp_all


subsection \<open>The fallback for unsupported options\<close>

lemma trace_writeResult:
  "trace (writeResult r s) =
     trace s @ (if outputText r \<noteq> [] then [StdoutWrite (outputText r)] else []) @
       (if errorOutput r \<noteq> [] then [StderrWrite (Text (errorOutput r))] else [])"
  by (simp add: writeResult_def trace_emit Let_def)

lemma runWithSpawn_eq:
  "runWithSpawn env args s =
     ((case fst (spawn_call env ''npx'' (''eslint'' # args) (world s)) of
         Closed code out err \<Rightarrow>
           \<lparr>exitCode = (case code of None \<Rightarrow> 1 | Some c \<Rightarrow> c), outputText = out,
            errorOutput = err\<rparr>
       | SpawnError msg \<Rightarrow>
           \<lparr>exitCode = 1, outputText = '''', errorOutput = ''Failed to spawn: '' @ msg\<rparr>),
      \<lparr>world = snd (spawn_call env ''npx'' (''eslint'' # args) (world s)),
       trace = trace s @ [Spawn ''npx'' (''eslint'' # args)]\<rparr>)"
  by (simp add: runWithSpawn_def perform_eq split: spawnOutcome.splits)

lemma runESLint_unsupported:
  assumes "findUnsupportedOptions args \<noteq> []"
  shows "runESLint env args s =
     (exitCode (fst (runWithSpawn env args
         (emit (StderrWrite (UnsupportedWarning (findUnsupportedOptions args))) s))),
      writeResult (fst (runWithSpawn env args
         (emit (StderrWrite (UnsupportedWarning (findUnsupportedOptions args))) s)))
        (snd (runWithSpawn env args
         (emit (StderrWrite (UnsupportedWarning (findUnsupportedOptions args))) s))))"
  using assms by (simp add: runESLint_def Let_def split: prod.splits)

text \<open>
  C9.  When \<open>findUnsupportedOptions\<close> returns a non-empty list, \<open>runESLint\<close> writes the
  warning with the unsupported names to the error stream, runs the fallback executor on the
  unchanged arguments, relays what it captured, and returns the exit code of the fallback's
  result: the code of the child process, or 1 when the process ended without a code or could
  not be spawned.  These are all the events of the invocation: the engine is not loaded or
  constructed, nothing is parsed, discovered or linted.
\<close>

theorem runESLint_unsupported_fallback:
  assumes "findUnsupportedOptions args \<noteq> []"
  shows "fst (runESLint env args s) =
           exitCode (fst (runWithSpawn env args
             (emit (StderrWrite (UnsupportedWarning (findUnsupportedOptions args))) s))) \<and>
         fst (runESLint env args s) =
           (case fst (spawn_call env ''npx'' (''eslint'' # args) (world s)) of
              Closed code out err \<Rightarrow> (case code of None \<Rightarrow> 1 | Some c \<Rightarrow> c)
            | SpawnError msg \<Rightarrow> 1) \<and>
         trace (snd (runESLint env args s)) =
           trace s @
           [StderrWrite (UnsupportedWarning (findUnsupportedOptions args)),
            Spawn ''npx'' (''eslint'' # args)] @
           (case fst (spawn_call env ''npx'' (''eslint'' # args) (world s)) of
              Closed code out err \<Rightarrow>
                (if out \<noteq> [] then [StdoutWrite out] else []) @
                (if err \<noteq> [] then [StderrWrite (Text err)] else [])
            | SpawnError msg \<Rightarrow> [StderrWrite (Text (''Failed to spawn: '' @ msg))])"
proof -
  let ?s = "emit (StderrWrite (UnsupportedWarning (findUnsupportedOptions args))) s"
  let ?r = "fst (runWithSpawn env args ?s)"
  have a: "fst (runESLint env args s) = exitCode ?r"
    by (simp add: runESLint_unsupported [OF assms])
  have b: "exitCode ?r =
           (case fst (spawn_call env ''npx'' (''eslint'' # args) (world s)) of
              Closed code out err \<Rightarrow> (case code of None \<Rightarrow> 1 | Some c \<Rightarrow> c)
            | SpawnError msg \<Rightarrow> 1)"
    by (simp add: runWithSpawn_eq world_emit split: spawnOutcome.splits)
  have c: "trace (snd (runESLint env args s)) =
           trace s @
           [StderrWrite (UnsupportedWarning (findUnsupportedOptions args)),
            Spawn ''npx'' (''eslint'' # args)] @
           (case fst (spawn_call env ''npx'' (''eslint'' # args) (world s)) of
              Closed code out err \<Rightarrow>
                (if out \<noteq> [] then [StdoutWrite out] else []) @
                (if err \<noteq> [] then [StderrWrite (Text err)] else [])
            | SpawnError msg \<Rightarrow> [StderrWrite (Text (''Failed to spawn: '' @ msg))])"
    by (simp add: runESLint_unsupported [OF assms] trace_writeResult runWithSpawn_eq trace_emit
        world_emit split: spawnOutcome.splits)
  from a b c show ?thesis by simp
qed

theorem runESLint_unsupported_fallback_witness:
  "findUnsupportedOptions [''--quiet'', ''src''] \<noteq> [] \<and>
   fst (runESLint sampleEnv [''--quiet'', ''src''] sampleState) = 2 \<and>
   trace (snd (runESLint sampleEnv [''--quiet'', ''src''] sampleState)) =
     [StderrWrite (UnsupportedWarning [''--quiet'']),
      Spawn ''npx'' [''eslint'', ''--quiet'', ''src''], StdoutWrite ''out'']"
proof -
  have u: "findUnsupportedOptions [''--quiet'', ''src''] = [''--quiet'']"
    by (simp add: findUnsupportedOptions_def startsWith_def optionNameOf_def includesChar_def
        SUPPORTED_FLAGS_def SUPPORTED_OPTIONS_WITH_VALUES_def)
  then have h: "findUnsupportedOptions [''--quiet'', ''src''] \<noteq> []" by simp
  have w: "spawn_call sampleEnv ''npx'' (''eslint'' # [''--quiet'', ''src'']) (world sampleState) =
      (Closed (Some 2) ''out'' '''', 1)"
    by (simp add: sampleEnv_def sampleState_def)
  have t: "trace sampleState = []" by (simp add: sampleState_def)
  from runESLint_unsupported_fallback [OF h, of sampleEnv sampleState] u w t h
  show ?thesis by simp
qed


subsection \<open>The enhanced path with no file\<close>

lemma trace_perform: "trace (snd (perform e f s)) = trace s @ [e]"
  by (simp add: perform_eq)

lemma lintCalls_quiet: "\<forall>e\<in>set evs. \<not> isLintCall e \<Longrightarrow> lintCalls evs = []"
  by (induction evs rule: lintCalls.induct) simp_all

lemma progress_quiet: "\<forall>e\<in>set evs. \<not> isProgressEvent e \<Longrightarrow> filter isProgressEvent evs = []"
  by (induction evs) simp_all

lemma filterIgnored_quiet:
  "\<exists>evs. trace (snd (filterIgnored env cands files s)) = trace s @ evs \<and>
     (\<forall>e\<in>set evs. \<not> isLintCall e \<and> \<not> isProgressEvent e)"
proof (induction cands arbitrary: files s)
  case Nil
  show ?case by simp
next
  case (Cons f cands)
  let ?s' = "\<lparr>world = snd (eslint_isPathIgnored env f (world s)),
             trace = trace s @ [IsPathIgnored f]\<rparr>"
  show ?case
  proof (cases "fst (eslint_isPathIgnored env f (world s))")
    case None
    then have "trace (snd (filterIgnored env (f # cands) files s)) =
        trace s @ [IsPathIgnored f]"
      by (simp add: perform_eq)
    then show ?thesis by simp
  next
    case (Some ignored)
    from Cons [of "if \<not> ignored then files @ [f] else files" ?s'] obtain evs where
      "trace (snd (filterIgnored env cands (if \<not> ignored then files @ [f] else files) ?s')) =
         trace ?s' @ evs"
      and q: "\<forall>e\<in>set evs. \<not> isLintCall e \<and> \<not> isProgressEvent e" by blast
    with Some have "trace (snd (filterIgnored env (f # cands) files s)) =
        trace s @ (IsPathIgnored f # evs)"
      by (simp add: perform_eq)
    moreover have "\<forall>e\<in>set (IsPathIgnored f # evs). \<not> isLintCall e \<and> \<not> isProgressEvent e"
      using q by simp
    ultimately show ?thesis by blast
  qed
qed

lemma getFilesToLint_trace:
  "trace (snd (getFilesToLint env ps exts s)) = trace s @ [Globby (globPatternsOf ps exts)]"
  by (simp add: getFilesToLint_def perform_eq Let_def split: option.splits)

lemma discoverFiles_quiet:
  "\<exists>evs. trace (snd (discoverFiles env args s)) = trace s @ evs \<and>
     (\<forall>e\<in>set evs. \<not> isLintCall e \<and> \<not> isProgressEvent e)"
proof (cases "parseESLintOptions (JSON_parse env) args")
  case (Inl e)
  then show ?thesis by (simp add: discoverFiles_def)
next
  case (Inr opts)
  let ?s1 = "\<lparr>world = snd (new_ESLint env (eslintOptions opts) (world s)),
             trace = trace s @ [NewESLint (eslintOptions opts)]\<rparr>"
  show ?thesis
  proof (cases "fst (new_ESLint env (eslintOptions opts) (world s))")
    case False
    with Inr have "trace (snd (discoverFiles env args s)) = trace s @ [NewESLint (eslintOptions opts)]"
      by (simp add: discoverFiles_def perform_eq)
    then show ?thesis by simp
  next
    case True
    let ?sp = "shouldShowProgress env (world ?s1)"
    let ?s2 = "if ?sp then emit (StderrWrite DiscoveringFiles) ?s1 else ?s1"
    let ?g = "getFilesToLint env (extractPatterns args) (extensions opts) ?s2"
    obtain evs0 where t2: "trace ?s2 = trace s @ evs0"
      and q0: "\<forall>e\<in>set evs0. \<not> isLintCall e \<and> \<not> isProgressEvent e"
      by (cases ?sp) (simp_all add: trace_emit)
    have t3: "trace (snd ?g) = trace ?s2 @ [Globby (globPatternsOf (extractPatterns args) (extensions opts))]"
      by (rule getFilesToLint_trace)
    from filterIgnored_quiet [of env "fst ?g" "[]" "snd ?g"] obtain evs1 where
      t4: "trace (snd (filterIgnored env (fst ?g) [] (snd ?g))) = trace (snd ?g) @ evs1"
      and q1: "\<forall>e\<in>set evs1. \<not> isLintCall e \<and> \<not> isProgressEvent e" by blast
    let ?f = "filterIgnored env (fst ?g) [] (snd ?g)"
    have d: "snd (discoverFiles env args s) =
        (case fst ?f of None \<Rightarrow> snd ?f
         | Some files \<Rightarrow> if ?sp then emit (StderrWrite ClearDiscovering) (snd ?f) else snd ?f)"
      using Inr True
      by (simp add: discoverFiles_def perform_eq Let_def split: prod.splits option.splits)
    obtain evs2 where t5: "trace (snd (discoverFiles env args s)) = trace (snd ?f) @ evs2"
      and q2: "\<forall>e\<in>set evs2. \<not> isLintCall e \<and> \<not> isProgressEvent e"
      unfolding d by (cases "fst ?f"; cases ?sp) (simp_all add: trace_emit)
    from t2 t3 t4 t5 have "trace (snd (discoverFiles env args s)) =
        trace s @ (evs0 @ [Globby (globPatternsOf (extractPatterns args) (extensions opts))] @ evs1 @ evs2)"
      by simp
    moreover have "\<forall>e\<in>set (evs0 @ [Globby (globPatternsOf (extractPatterns args) (extensions opts))] @ evs1 @ evs2).
        \<not> isLintCall e \<and> \<not> isProgressEvent e"
      using q0 q1 q2 by auto
    ultimately show ?thesis by blast
  qed
qed

lemma foldl_plus: "foldl (\<lambda>sum r. sum + f r) a rs = a + sum_list (map f rs)" for a :: int
  by (induction rs arbitrary: a) simp_all

lemma formatAndExit_quiet:
  "\<exists>evs. trace (snd (formatAndExit env fmt mw rs s)) = trace s @ evs \<and>
     (\<forall>e\<in>set evs. \<not> isLintCall e \<and> \<not> isProgressEvent e)"
proof (cases "fst (eslint_loadFormatter env fmt (world s))")
  case None
  then have "trace (snd (formatAndExit env fmt mw rs s)) = trace s @ [LoadFormatter fmt]"
    by (simp add: formatAndExit_def perform_eq)
  then show ?thesis by simp
next
  case (Some fm)
  then have "trace (snd (formatAndExit env fmt mw rs s)) =
      trace s @ [LoadFormatter fmt, Format rs]"
    by (simp add: formatAndExit_def perform_eq Let_def split: option.splits)
  then show ?thesis by simp
qed

lemma formatAndExit_success:
  assumes "eslint_loadFormatter env fmt (world s) = (Some fm, w3)"
    and "formatter_format env fm rs w3 = (Some out, w4)"
  shows "formatAndExit env fmt mw rs s =
     (Some \<lparr>exitCode = calculateExitCode (sum_list (map (result_errorCount env) rs))
               (sum_list (map (result_warningCount env) rs)) mw,
            outputText = out, errorOutput = ''''\<rparr>,
      \<lparr>world = w4, trace = trace s @ [LoadFormatter fmt, Format rs]\<rparr>)"
  using assms by (simp add: formatAndExit_def perform_def foldl_plus)

lemma lintPatterns_trace:
  "\<exists>evs. trace (snd (lintPatterns env ps fmt mw s)) = trace s @ LintFiles ps # evs \<and>
     (\<forall>e\<in>set evs. \<not> isLintCall e \<and> \<not> isProgressEvent e)"
proof (cases "fst (eslint_lintFiles env ps (world s))")
  case None
  then have "trace (snd (lintPatterns env ps fmt mw s)) = trace s @ [LintFiles ps]"
    by (simp add: lintPatterns_def perform_eq)
  then show ?thesis by simp
next
  case (Some rs)
  let ?s' = "\<lparr>world = snd (eslint_lintFiles env ps (world s)), trace = trace s @ [LintFiles ps]\<rparr>"
  from formatAndExit_quiet [of env fmt mw rs ?s'] obtain evs where
    "trace (snd (formatAndExit env fmt mw rs ?s')) = trace ?s' @ evs"
    and q: "\<forall>e\<in>set evs. \<not> isLintCall e \<and> \<not> isProgressEvent e" by blast
  with Some have "trace (snd (lintPatterns env ps fmt mw s)) = trace s @ LintFiles ps # evs"
    by (simp add: lintPatterns_def perform_eq)
  with q show ?thesis by blast
qed





subsection \<open>The enhanced path with files\<close>

lemma spec_lintChunks_world:
  "world (snd (spec_lintChunks env cs acc s)) = engineWorld env cs (world s)"
proof (induction cs arbitrary: acc s)
  case Nil
  show ?case by simp
next
  case (Cons c cs)
  show ?case
  proof (cases "eslint_lintFiles env c (world s)")
    case (Pair a w')
    show ?thesis
    proof (cases a)
      case None
      with Pair show ?thesis
        by (simp add: spec_lintChunks_Cons del: spec_lintChunks.simps(2))
    next
      case (Some r)
      with Pair show ?thesis
        using Cons [of "acc @ r"
            "emit (ProgressIncrement (length c)) \<lparr>world = w', trace = trace s @ [LintFiles c]\<rparr>"]
        by (simp add: spec_lintChunks_Cons world_emit del: spec_lintChunks.simps(2))
    qed
  qed
qed

lemma formatCalls_append: "formatCalls (a @ b) = formatCalls a @ formatCalls b"
  by (induction a rule: formatCalls.induct) simp_all

lemma formatCalls_quiet: "\<forall>e\<in>set evs. \<not> isFormatCall e \<Longrightarrow> formatCalls evs = []"
  by (induction evs rule: formatCalls.induct) simp_all

lemma increments_quiet: "\<forall>e\<in>set evs. \<not> isProgressEvent e \<Longrightarrow> increments evs = []"
  by (induction evs rule: increments.induct) simp_all

lemma progress_batches:
  "filter isProgressEvent (concat (map (\<lambda>c. [LintFiles c, ProgressIncrement (length c)]) cs)) =
     map ProgressIncrement (map length cs)"
  by (induction cs) simp_all

lemma formatCalls_batches:
  "formatCalls (concat (map (\<lambda>c. [LintFiles c, ProgressIncrement (length c)]) cs)) = []"
  by (induction cs) simp_all

lemma lintWithProgress_eq:
  "lintWithProgress env opts sp files s =
     (case lintBatches env files 0 []
         \<lparr>world = snd (Date_now env (world s)),
          trace = trace s @ [CreateProgressBar, ProgressStart (length files), DateNow]\<rparr> of
        (None, s3) \<Rightarrow> (None, s3)
      | (Some allResults, s3) \<Rightarrow>
          afterLoop env opts sp (length files) (fst (Date_now env (world s))) allResults s3)"
proof -
  have head: "perform DateNow (Date_now env)
      (emit (ProgressStart (length files)) (emit CreateProgressBar s)) =
      (fst (Date_now env (world s)),
       \<lparr>world = snd (Date_now env (world s)),
        trace = trace s @ [CreateProgressBar, ProgressStart (length files), DateNow]\<rparr>)"
    by (simp add: perform_eq trace_emit world_emit)
  show ?thesis
    unfolding lintWithProgress_def Let_def head
    by (simp add: afterLoop_def Let_def split: prod.split option.split)
qed

lemma formatAndExit_trace:
  "trace (snd (formatAndExit env fmt mw rs s)) = trace s @ [LoadFormatter fmt] \<or>
   trace (snd (formatAndExit env fmt mw rs s)) = trace s @ [LoadFormatter fmt, Format rs]"
  by (cases "fst (eslint_loadFormatter env fmt (world s))")
    (simp_all add: formatAndExit_def perform_eq Let_def split: option.splits)

lemma formatAndExit_Some:
  assumes "fst (formatAndExit env fmt mw rs s) = Some r"
  shows "trace (snd (formatAndExit env fmt mw rs s)) = trace s @ [LoadFormatter fmt, Format rs] \<and>
     exitCode r = calculateExitCode (sum_list (map (result_errorCount env) rs))
       (sum_list (map (result_warningCount env) rs)) mw \<and>
     errorOutput r = []"
  using assms
  by (cases "fst (eslint_loadFormatter env fmt (world s))")
    (auto simp: formatAndExit_def perform_eq Let_def foldl_plus split: option.splits)

lemma formatAndExit_after:
  "\<exists>evs. trace (snd (formatAndExit env fmt mw rs s)) = trace s @ evs \<and>
     (\<forall>e\<in>set evs. \<not> isLintCall e \<and> \<not> isProgressEvent e) \<and>
     (formatCalls evs = [] \<or> formatCalls evs = [rs]) \<and>
     (\<forall>r. fst (formatAndExit env fmt mw rs s) = Some r \<longrightarrow>
        formatCalls evs = [rs] \<and>
        exitCode r = calculateExitCode (sum_list (map (result_errorCount env) rs))
          (sum_list (map (result_warningCount env) rs)) mw \<and>
        errorOutput r = [])"
proof -
  from formatAndExit_trace [of env fmt mw rs s] show ?thesis
  proof
    assume t: "trace (snd (formatAndExit env fmt mw rs s)) = trace s @ [LoadFormatter fmt]"
    have "fst (formatAndExit env fmt mw rs s) = None"
      using formatAndExit_Some [of env fmt mw rs s] t
      by (cases "fst (formatAndExit env fmt mw rs s)") auto
    with t show ?thesis by (intro exI [of _ "[LoadFormatter fmt]"]) simp
  next
    assume t: "trace (snd (formatAndExit env fmt mw rs s)) = trace s @ [LoadFormatter fmt, Format rs]"
    with formatAndExit_Some [of env fmt mw rs s] show ?thesis
      by (intro exI [of _ "[LoadFormatter fmt, Format rs]"]) simp
  qed
qed

lemma afterLoop_cases:
  "\<exists>s6 evs.
     trace s6 = trace s3 @ ProgressStop # evs \<and>
     (\<forall>e\<in>set evs. \<not> isLintCall e \<and> \<not> isProgressEvent e \<and> \<not> isFormatCall e) \<and>
     ((afterLoop env opts sp n t0 rs s3 = (None, s6) \<and>
       formatterWorld env opts sp rs (world s3) = None) \<or>
      (afterLoop env opts sp n t0 rs s3 =
         formatAndExit env (format opts) (maxWarnings opts) rs s6 \<and>
       formatterWorld env opts sp rs (world s3) = Some (world s6)))"
proof -
  let ?s5 = "if sp then
               (case perform DateNow (Date_now env) (emit ProgressStop s3) of
                  (endTime, s') \<Rightarrow> emit (StderrWrite (LintedSummary n (endTime - t0))) s')
             else emit ProgressStop s3"
  let ?w4 = "if sp then snd (Date_now env (world s3)) else world s3"
  let ?evs5 = "if sp then
      [DateNow, StderrWrite (LintedSummary n (fst (Date_now env (world s3)) - t0))] else []"
  have t5: "trace ?s5 = trace s3 @ ProgressStop # ?evs5"
    by (simp add: perform_eq trace_emit world_emit)
  have w5: "world ?s5 = ?w4"
    by (simp add: perform_eq trace_emit world_emit)
  have q5: "\<forall>e\<in>set ?evs5. \<not> isLintCall e \<and> \<not> isProgressEvent e \<and> \<not> isFormatCall e"
    by auto
  show ?thesis
  proof (cases "fix_flag (eslintOptions opts) = Some True")
    case False
    then have "afterLoop env opts sp n t0 rs s3 =
        formatAndExit env (format opts) (maxWarnings opts) rs ?s5"
      by (simp add: afterLoop_def Let_def)
    moreover have "formatterWorld env opts sp rs (world s3) = Some (world ?s5)"
      using False unfolding w5 by (simp add: formatterWorld_def Let_def)
    ultimately show ?thesis using t5 q5 by blast
  next
    case True
    let ?s6 = "\<lparr>world = snd (ESLint_outputFixes env rs ?w4),
               trace = trace s3 @ ProgressStop # (?evs5 @ [OutputFixes rs])\<rparr>"
    have p: "perform (OutputFixes rs) (ESLint_outputFixes env rs) ?s5 =
        (fst (ESLint_outputFixes env rs ?w4), ?s6)"
      by (simp add: perform_eq trace_emit world_emit)
    have q6: "\<forall>e\<in>set (?evs5 @ [OutputFixes rs]).
        \<not> isLintCall e \<and> \<not> isProgressEvent e \<and> \<not> isFormatCall e"
      by auto
    have t6: "trace ?s6 = trace s3 @ ProgressStop # (?evs5 @ [OutputFixes rs])"
      by simp
    have a: "afterLoop env opts sp n t0 rs s3 =
        (case perform (OutputFixes rs) (ESLint_outputFixes env rs) ?s5 of
           (False, s6) \<Rightarrow> (None, s6)
         | (True, s6) \<Rightarrow> formatAndExit env (format opts) (maxWarnings opts) rs s6)"
      using True by (simp add: afterLoop_def Let_def)
    show ?thesis
    proof (cases "fst (ESLint_outputFixes env rs ?w4)")
      case False
      then have "afterLoop env opts sp n t0 rs s3 = (None, ?s6)"
        unfolding a p by simp
      moreover have "formatterWorld env opts sp rs (world s3) = None"
        using True False by (auto simp: formatterWorld_def Let_def split: prod.splits)
      ultimately show ?thesis using t6 q6 by blast
    next
      case ok: True
      then have "afterLoop env opts sp n t0 rs s3 =
          formatAndExit env (format opts) (maxWarnings opts) rs ?s6"
        unfolding a p by simp
      moreover have "formatterWorld env opts sp rs (world s3) = Some (world ?s6)"
        using True ok by (auto simp: formatterWorld_def Let_def split: prod.splits)
      ultimately show ?thesis using t6 q6 by blast
    qed
  qed
qed

lemma afterLoop_after:
  "\<exists>evs. trace (snd (afterLoop env opts sp n t0 rs s3)) = trace s3 @ ProgressStop # evs \<and>
     (\<forall>e\<in>set evs. \<not> isLintCall e \<and> \<not> isProgressEvent e) \<and>
     (formatCalls evs = [] \<or> formatCalls evs = [rs]) \<and>
     (\<forall>r. fst (afterLoop env opts sp n t0 rs s3) = Some r \<longrightarrow>
        formatCalls evs = [rs] \<and>
        exitCode r = calculateExitCode (sum_list (map (result_errorCount env) rs))
          (sum_list (map (result_warningCount env) rs)) (maxWarnings opts) \<and>
        errorOutput r = [])"
proof -
  from afterLoop_cases [of s3 env opts sp n t0 rs] obtain s6 evs where
    t: "trace s6 = trace s3 @ ProgressStop # evs"
    and q: "\<forall>e\<in>set evs. \<not> isLintCall e \<and> \<not> isProgressEvent e \<and> \<not> isFormatCall e"
    and c: "afterLoop env opts sp n t0 rs s3 = (None, s6) \<or>
      afterLoop env opts sp n t0 rs s3 = formatAndExit env (format opts) (maxWarnings opts) rs s6"
    by blast
  have f: "formatCalls evs = []" using q by (simp add: formatCalls_quiet)
  from c show ?thesis
  proof
    assume "afterLoop env opts sp n t0 rs s3 = (None, s6)"
    with t q f show ?thesis by (intro exI [of _ evs]) simp
  next
    assume a: "afterLoop env opts sp n t0 rs s3 =
      formatAndExit env (format opts) (maxWarnings opts) rs s6"
    from formatAndExit_after [of env "format opts" "maxWarnings opts" rs s6] obtain evs' where
      t': "trace (snd (formatAndExit env (format opts) (maxWarnings opts) rs s6)) = trace s6 @ evs'"
      and q': "\<forall>e\<in>set evs'. \<not> isLintCall e \<and> \<not> isProgressEvent e"
      and f': "formatCalls evs' = [] \<or> formatCalls evs' = [rs]"
      and r': "\<forall>r. fst (formatAndExit env (format opts) (maxWarnings opts) rs s6) = Some r \<longrightarrow>
        formatCalls evs' = [rs] \<and>
        exitCode r = calculateExitCode (sum_list (map (result_errorCount env) rs))
          (sum_list (map (result_warningCount env) rs)) (maxWarnings opts) \<and>
        errorOutput r = []" by blast
    show ?thesis
      using a t t' q q' f f' r'
      by (intro exI [of _ "evs @ evs'"]) (auto simp: formatCalls_append)
  qed
qed

lemma afterLoop_success:
  assumes "formatterWorld env opts sp rs (world s3) = Some w5"
    and "eslint_loadFormatter env (format opts) w5 = (Some fm, w6)"
    and "formatter_format env fm rs w6 = (Some out, w7)"
  shows "fst (afterLoop env opts sp n t0 rs s3) =
     Some \<lparr>exitCode = calculateExitCode (sum_list (map (result_errorCount env) rs))
               (sum_list (map (result_warningCount env) rs)) (maxWarnings opts),
            outputText = out, errorOutput = ''''\<rparr>"
proof -
  from afterLoop_cases [of s3 env opts sp n t0 rs] assms(1) obtain s6 where
    a: "afterLoop env opts sp n t0 rs s3 =
      formatAndExit env (format opts) (maxWarnings opts) rs s6"
    and w: "world s6 = w5" by auto
  from formatAndExit_success [of env "format opts" s6 fm w6 rs out w7 "maxWarnings opts"]
    assms(2,3) w a
  show ?thesis by simp
qed

lemma filterIgnored_formatCalls:
  "formatCalls (trace (snd (filterIgnored env cands files s))) = formatCalls (trace s)"
proof (induction cands arbitrary: files s)
  case Nil
  show ?case by simp
next
  case (Cons f cands)
  let ?s' = "\<lparr>world = snd (eslint_isPathIgnored env f (world s)),
             trace = trace s @ [IsPathIgnored f]\<rparr>"
  show ?case
  proof (cases "fst (eslint_isPathIgnored env f (world s))")
    case None
    then show ?thesis by (simp add: perform_eq formatCalls_append)
  next
    case (Some ignored)
    with Cons [of "if \<not> ignored then files @ [f] else files" ?s'] show ?thesis
      by (simp add: perform_eq formatCalls_append)
  qed
qed

lemma discoverFiles_formatCalls:
  "formatCalls (trace (snd (discoverFiles env args s))) = formatCalls (trace s)"
proof (cases "parseESLintOptions (JSON_parse env) args")
  case (Inl e)
  then show ?thesis by (simp add: discoverFiles_def)
next
  case (Inr opts)
  let ?s1 = "\<lparr>world = snd (new_ESLint env (eslintOptions opts) (world s)),
             trace = trace s @ [NewESLint (eslintOptions opts)]\<rparr>"
  show ?thesis
  proof (cases "fst (new_ESLint env (eslintOptions opts) (world s))")
    case False
    with Inr have "trace (snd (discoverFiles env args s)) = trace s @ [NewESLint (eslintOptions opts)]"
      by (simp add: discoverFiles_def perform_eq)
    then show ?thesis by (simp add: formatCalls_append)
  next
    case True
    let ?sp = "shouldShowProgress env (world ?s1)"
    let ?s2 = "if ?sp then emit (StderrWrite DiscoveringFiles) ?s1 else ?s1"
    let ?g = "getFilesToLint env (extractPatterns args) (extensions opts) ?s2"
    let ?f = "filterIgnored env (fst ?g) [] (snd ?g)"
    have t2: "formatCalls (trace ?s2) = formatCalls (trace s)"
      by (cases ?sp) (simp_all add: trace_emit formatCalls_append)
    have t3: "formatCalls (trace (snd ?g)) = formatCalls (trace ?s2)"
      unfolding getFilesToLint_trace by (simp add: formatCalls_append)
    have t4: "formatCalls (trace (snd ?f)) = formatCalls (trace (snd ?g))"
      by (rule filterIgnored_formatCalls)
    have d: "snd (discoverFiles env args s) =
        (case fst ?f of None \<Rightarrow> snd ?f
         | Some files \<Rightarrow> if ?sp then emit (StderrWrite ClearDiscovering) (snd ?f) else snd ?f)"
      using Inr True
      by (simp add: discoverFiles_def perform_eq Let_def split: prod.splits option.splits)
    have t5: "formatCalls (trace (snd (discoverFiles env args s))) = formatCalls (trace (snd ?f))"
      unfolding d by (cases "fst ?f"; cases ?sp) (simp_all add: trace_emit formatCalls_append)
    from t2 t3 t4 t5 show ?thesis by simp
  qed
qed

lemma runWithAPI_files:
  assumes "perform ImportESLint (import_eslint env) s = (True, s0)"
    and "discoverFiles env args s0 = (Some (opts, sp, files), s1)"
    and "files \<noteq> []"
  shows "runWithAPI env args s =
     (case lintWithProgress env opts sp files s1 of
        (Some r, s') \<Rightarrow> (Some r, s')
      | (None, s') \<Rightarrow>
          (None, if truthy (process_env env (world s') ''DEBUG'')
                 then emit (StderrWrite DebugError) s' else s'))"
  using assms by (simp add: runWithAPI_def tryBody_def)

text \<open>The \<open>catch\<close> clause adds at most the debug message, and keeps the result.\<close>

lemma runWithAPI_files_after:
  assumes "perform ImportESLint (import_eslint env) s = (True, s0)"
    and "discoverFiles env args s0 = (Some (opts, sp, files), s1)"
    and "files \<noteq> []"
  shows "fst (runWithAPI env args s) = fst (lintWithProgress env opts sp files s1) \<and>
     (\<exists>evs. trace (snd (runWithAPI env args s)) =
          trace (snd (lintWithProgress env opts sp files s1)) @ evs \<and>
        (\<forall>e\<in>set evs. \<not> isLintCall e \<and> \<not> isProgressEvent e \<and> \<not> isFormatCall e))"
proof (cases "lintWithProgress env opts sp files s1")
  case (Pair a s')
  show ?thesis
  proof (cases a)
    case None
    let ?evs = "if truthy (process_env env (world s') ''DEBUG'') then [StderrWrite DebugError]
                else []"
    have "trace (snd (runWithAPI env args s)) = trace s' @ ?evs"
      and "fst (runWithAPI env args s) = None"
      unfolding runWithAPI_files [OF assms] using Pair None by (simp_all add: trace_emit)
    moreover have "\<forall>e\<in>set ?evs. \<not> isLintCall e \<and> \<not> isProgressEvent e \<and> \<not> isFormatCall e"
      by simp
    ultimately show ?thesis using Pair None by auto
  next
    case (Some r)
    have "trace (snd (runWithAPI env args s)) = trace s' @ []"
      and "fst (runWithAPI env args s) = Some r"
      unfolding runWithAPI_files [OF assms] using Pair Some by simp_all
    then show ?thesis using Pair Some by auto
  qed
qed

text \<open>The batch loop inside \<open>lintWithProgress\<close>, when a lint call throws.\<close>

lemma lintWithProgress_throws:
  assumes "engineResults env (chunks BATCH_SIZE files) (snd (Date_now env (world s1))) = None"
  shows "fst (lintWithProgress env opts sp files s1) = None"
proof -
  let ?s2 = "\<lparr>world = snd (Date_now env (world s1)),
             trace = trace s1 @ [CreateProgressBar, ProgressStart (length files), DateNow]\<rparr>"
  have "fst (lintBatches env files 0 [] ?s2) = None"
    using assms by (simp add: lintBatches_spec spec_lintChunks_result)
  then show ?thesis
    unfolding lintWithProgress_eq by (cases "lintBatches env files 0 [] ?s2") simp
qed

text \<open>The batch loop inside \<open>lintWithProgress\<close>, when no lint call throws.\<close>

lemma lintWithProgress_batches:
  assumes "engineResults env (chunks BATCH_SIZE files) (snd (Date_now env (world s1))) = Some rss"
  shows "\<exists>s3. lintWithProgress env opts sp files s1 =
         afterLoop env opts sp (length files) (fst (Date_now env (world s1))) (concat rss) s3 \<and>
       trace s3 = trace s1 @ [CreateProgressBar, ProgressStart (length files), DateNow] @
         concat (map (\<lambda>c. [LintFiles c, ProgressIncrement (length c)]) (chunks BATCH_SIZE files)) \<and>
       world s3 = engineWorld env (chunks BATCH_SIZE files) (snd (Date_now env (world s1)))"
proof -
  let ?s2 = "\<lparr>world = snd (Date_now env (world s1)),
             trace = trace s1 @ [CreateProgressBar, ProgressStart (length files), DateNow]\<rparr>"
  let ?l = "lintBatches env files 0 [] ?s2"
  have l: "?l = spec_lintChunks env (chunks BATCH_SIZE files) [] ?s2"
    by (simp add: lintBatches_spec)
  have f: "fst ?l = Some (concat rss)"
    using assms unfolding l by (simp add: spec_lintChunks_result)
  have ne: "engineResults env (chunks BATCH_SIZE files) (world ?s2) \<noteq> None"
    using assms by simp
  have t: "trace (snd ?l) = trace s1 @ [CreateProgressBar, ProgressStart (length files), DateNow] @
         concat (map (\<lambda>c. [LintFiles c, ProgressIncrement (length c)]) (chunks BATCH_SIZE files))"
    unfolding l using spec_lintChunks_trace [OF ne, of "[]"] by simp
  have w: "world (snd ?l) =
      engineWorld env (chunks BATCH_SIZE files) (snd (Date_now env (world s1)))"
    unfolding l by (simp add: spec_lintChunks_world)
  have "lintWithProgress env opts sp files s1 =
      afterLoop env opts sp (length files) (fst (Date_now env (world s1))) (concat rss) (snd ?l)"
    unfolding lintWithProgress_eq using f by (cases ?l) simp
  with t w show ?thesis by blast
qed

lemma filterIgnored_batchEnv:
  "filterIgnored batchEnv cands files s =
     (Some (files @ cands),
      \<lparr>world = world s + length cands, trace = trace s @ map IsPathIgnored cands\<rparr>)"
proof (induction cands arbitrary: files s)
  case Nil
  show ?case by simp
next
  case (Cons f cands)
  have p: "perform (IsPathIgnored f) (eslint_isPathIgnored batchEnv f) s =
      (Some False, \<lparr>world = Suc (world s), trace = trace s @ [IsPathIgnored f]\<rparr>)"
    by (simp add: perform_def batchEnv_def sampleEnv_def)
  show ?case
    by (simp add: p Cons)
qed

text \<open>
  C7.  Let the engine be loaded, and let the first half of the \<open>try\<close> block (parsing,
  construction of the engine, discovery, ignore filter) end with a non-empty file list
  \<open>files\<close>.  The consecutive chunks of at most 20 files of the list are non-empty and
  joined in order they are the list, so every file is in exactly one chunk, and their sizes
  sum to the number of files.  When a lint call on one of the chunks throws, \<open>runWithAPI\<close>
  returns the \<open>None\<close> that sends the caller to the fallback.  When none throws: the lint
  calls of \<open>runWithAPI\<close> are exactly the chunks, one call for each, in order; the
  progress bar is created, started with the number of files, advanced by the size of each
  chunk and stopped, and nothing else; the formatter is called at most once, and then with
  the results of the chunks joined in order; a result that is returned has the exit code
  computed from the sums of the error and warning counts of these joined results and the
  threshold; and when writing the fixes, loading the formatter and formatting return, the
  result is the formatted text of these joined results.
\<close>

theorem runWithAPI_batches:
  assumes "perform ImportESLint (import_eslint env) s = (True, s0)"
    and "discoverFiles env args s0 = (Some (opts, showProgress, files), s1)"
    and "files \<noteq> []"
  shows "concat (chunks BATCH_SIZE files) = files \<and>
     (\<forall>c\<in>set (chunks BATCH_SIZE files). c \<noteq> [] \<and> length c \<le> 20) \<and>
     sum_list (map length (chunks BATCH_SIZE files)) = length files \<and>
     (engineResults env (chunks BATCH_SIZE files) (snd (Date_now env (world s1))) = None \<longrightarrow>
        fst (runWithAPI env args s) = None) \<and>
     (\<forall>rss. engineResults env (chunks BATCH_SIZE files) (snd (Date_now env (world s1))) = Some rss \<longrightarrow>
        lintCalls (trace (snd (runWithAPI env args s))) =
          lintCalls (trace s) @ chunks BATCH_SIZE files \<and>
        increments (trace (snd (runWithAPI env args s))) =
          increments (trace s) @ map length (chunks BATCH_SIZE files) \<and>
        filter isProgressEvent (trace (snd (runWithAPI env args s))) =
          filter isProgressEvent (trace s) @
          [CreateProgressBar, ProgressStart (length files)] @
          map ProgressIncrement (map length (chunks BATCH_SIZE files)) @ [ProgressStop] \<and>
        (formatCalls (trace (snd (runWithAPI env args s))) = formatCalls (trace s) \<or>
         formatCalls (trace (snd (runWithAPI env args s))) = formatCalls (trace s) @ [concat rss]) \<and>
        (\<forall>r. fst (runWithAPI env args s) = Some r \<longrightarrow>
           formatCalls (trace (snd (runWithAPI env args s))) =
             formatCalls (trace s) @ [concat rss] \<and>
           exitCode r =
             calculateExitCode (sum_list (map (result_errorCount env) (concat rss)))
               (sum_list (map (result_warningCount env) (concat rss))) (maxWarnings opts) \<and>
           errorOutput r = '''') \<and>
        (\<forall>w5 fm w6 out w7.
           formatterWorld env opts showProgress (concat rss)
             (engineWorld env (chunks BATCH_SIZE files) (snd (Date_now env (world s1)))) =
             Some w5 \<and>
           eslint_loadFormatter env (format opts) w5 = (Some fm, w6) \<and>
           formatter_format env fm (concat rss) w6 = (Some out, w7) \<longrightarrow>
           fst (runWithAPI env args s) =
             Some \<lparr>exitCode =
                      calculateExitCode (sum_list (map (result_errorCount env) (concat rss)))
                        (sum_list (map (result_warningCount env) (concat rss)))
                        (maxWarnings opts),
                   outputText = out, errorOutput = ''''\<rparr>))"
proof -
  let ?cs = "chunks BATCH_SIZE files"
  let ?w2 = "snd (Date_now env (world s1))"
  let ?run = "runWithAPI env args s"
  let ?lwp = "lintWithProgress env opts showProgress files s1"
  have pos: "0 < BATCH_SIZE" by (simp add: BATCH_SIZE_def)
  have a: "concat ?cs = files"
    using pos by (rule concat_chunks)
  have b: "\<forall>c\<in>set ?cs. c \<noteq> [] \<and> length c \<le> 20"
    using chunks_bounds [of _ BATCH_SIZE files] by (simp add: BATCH_SIZE_def)
  have c: "sum_list (map length ?cs) = length files"
    using pos by (rule sum_length_chunks)
  from runWithAPI_files_after [OF assms] obtain evs3 where
    r: "fst ?run = fst ?lwp"
    and t3: "trace (snd ?run) = trace (snd ?lwp) @ evs3"
    and q3: "\<forall>e\<in>set evs3. \<not> isLintCall e \<and> \<not> isProgressEvent e \<and> \<not> isFormatCall e"
    by blast
  have t0: "trace s0 = trace s @ [ImportESLint]"
    using assms(1) trace_perform [of ImportESLint "import_eslint env" s] by simp
  from discoverFiles_quiet [of env args s0] assms(2) obtain evs1 where
    t1: "trace s1 = trace s0 @ evs1"
    and q1: "\<forall>e\<in>set evs1. \<not> isLintCall e \<and> \<not> isProgressEvent e" by auto
  have f1: "formatCalls (trace s1) = formatCalls (trace s)"
    using discoverFiles_formatCalls [of env args s0] assms(2) t0
    by (simp add: formatCalls_append)
  have l1: "lintCalls (trace s1) = lintCalls (trace s)"
    unfolding t1 t0 using lintCalls_quiet [of evs1] q1 by (simp add: lintCalls_append)
  have i1: "increments (trace s1) = increments (trace s)"
    unfolding t1 t0 using increments_quiet [of evs1] q1 by (simp add: increments_append)
  have p1: "filter isProgressEvent (trace s1) = filter isProgressEvent (trace s)"
    unfolding t1 t0 using progress_quiet [of evs1] q1 by simp
  have d: "fst ?run = None" if "engineResults env ?cs ?w2 = None"
    unfolding r using that by (rule lintWithProgress_throws)
  have e: "lintCalls (trace (snd ?run)) = lintCalls (trace s) @ ?cs \<and>
        increments (trace (snd ?run)) = increments (trace s) @ map length ?cs \<and>
        filter isProgressEvent (trace (snd ?run)) =
          filter isProgressEvent (trace s) @
          [CreateProgressBar, ProgressStart (length files)] @
          map ProgressIncrement (map length ?cs) @ [ProgressStop] \<and>
        (formatCalls (trace (snd ?run)) = formatCalls (trace s) \<or>
         formatCalls (trace (snd ?run)) = formatCalls (trace s) @ [concat rss]) \<and>
        (\<forall>r. fst ?run = Some r \<longrightarrow>
           formatCalls (trace (snd ?run)) = formatCalls (trace s) @ [concat rss] \<and>
           exitCode r =
             calculateExitCode (sum_list (map (result_errorCount env) (concat rss)))
               (sum_list (map (result_warningCount env) (concat rss))) (maxWarnings opts) \<and>
           errorOutput r = '''') \<and>
        (\<forall>w5 fm w6 out w7.
           formatterWorld env opts showProgress (concat rss) (engineWorld env ?cs ?w2) = Some w5 \<and>
           eslint_loadFormatter env (format opts) w5 = (Some fm, w6) \<and>
           formatter_format env fm (concat rss) w6 = (Some out, w7) \<longrightarrow>
           fst ?run =
             Some \<lparr>exitCode =
                      calculateExitCode (sum_list (map (result_errorCount env) (concat rss)))
                        (sum_list (map (result_warningCount env) (concat rss)))
                        (maxWarnings opts),
                   outputText = out, errorOutput = ''''\<rparr>)"
    if h: "engineResults env ?cs ?w2 = Some rss" for rss
  proof -
    let ?t0 = "fst (Date_now env (world s1))"
    let ?batches = "concat (map (\<lambda>c. [LintFiles c, ProgressIncrement (length c)]) ?cs)"
    from lintWithProgress_batches [OF h, of opts showProgress] obtain s3 where
      lw: "?lwp = afterLoop env opts showProgress (length files) ?t0 (concat rss) s3"
      and ts3: "trace s3 =
        trace s1 @ [CreateProgressBar, ProgressStart (length files), DateNow] @ ?batches"
      and ws3: "world s3 = engineWorld env ?cs ?w2" by blast
    let ?al = "afterLoop env opts showProgress (length files) ?t0 (concat rss) s3"
    from afterLoop_after [of env opts showProgress "length files" ?t0 "concat rss" s3]
    obtain evs2 where
      t2: "trace (snd ?al) = trace s3 @ ProgressStop # evs2"
      and q2: "\<forall>e\<in>set evs2. \<not> isLintCall e \<and> \<not> isProgressEvent e"
      and f2: "formatCalls evs2 = [] \<or> formatCalls evs2 = [concat rss]"
      and r2: "\<forall>r. fst ?al = Some r \<longrightarrow>
        formatCalls evs2 = [concat rss] \<and>
        exitCode r = calculateExitCode (sum_list (map (result_errorCount env) (concat rss)))
          (sum_list (map (result_warningCount env) (concat rss))) (maxWarnings opts) \<and>
        errorOutput r = []" by blast
    have tr: "trace (snd ?run) =
        trace s1 @ [CreateProgressBar, ProgressStart (length files), DateNow] @ ?batches @
          ProgressStop # evs2 @ evs3"
      using t3 lw t2 ts3 by simp
    have q3l: "\<forall>e\<in>set evs3. \<not> isLintCall e" and q3p: "\<forall>e\<in>set evs3. \<not> isProgressEvent e"
      and q3f: "\<forall>e\<in>set evs3. \<not> isFormatCall e"
      and q2l: "\<forall>e\<in>set evs2. \<not> isLintCall e" and q2p: "\<forall>e\<in>set evs2. \<not> isProgressEvent e"
      using q2 q3 by simp_all
    have e1: "lintCalls (trace (snd ?run)) = lintCalls (trace s) @ ?cs"
      unfolding tr
      by (simp add: lintCalls_append lintCalls_batches lintCalls_quiet [OF q2l]
          lintCalls_quiet [OF q3l] l1)
    have e2: "increments (trace (snd ?run)) = increments (trace s) @ map length ?cs"
      unfolding tr
      by (simp add: increments_append increments_batches increments_quiet [OF q2p]
          increments_quiet [OF q3p] i1)
    have e3: "filter isProgressEvent (trace (snd ?run)) =
          filter isProgressEvent (trace s) @
          [CreateProgressBar, ProgressStart (length files)] @
          map ProgressIncrement (map length ?cs) @ [ProgressStop]"
      unfolding tr
      using progress_batches [of ?cs]
      by (simp add: progress_quiet [OF q2p] progress_quiet [OF q3p] p1)
    have fc: "formatCalls (trace (snd ?run)) = formatCalls (trace s) @ formatCalls evs2"
      unfolding tr
      by (simp add: formatCalls_append formatCalls_batches formatCalls_quiet [OF q3f] f1)
    have e4: "formatCalls (trace (snd ?run)) = formatCalls (trace s) \<or>
         formatCalls (trace (snd ?run)) = formatCalls (trace s) @ [concat rss]"
      using f2 unfolding fc by auto
    have e5: "\<forall>r. fst ?run = Some r \<longrightarrow>
           formatCalls (trace (snd ?run)) = formatCalls (trace s) @ [concat rss] \<and>
           exitCode r =
             calculateExitCode (sum_list (map (result_errorCount env) (concat rss)))
               (sum_list (map (result_warningCount env) (concat rss))) (maxWarnings opts) \<and>
           errorOutput r = ''''"
      using r2 unfolding fc r lw by simp
    have e6: "fst ?run =
             Some \<lparr>exitCode =
                      calculateExitCode (sum_list (map (result_errorCount env) (concat rss)))
                        (sum_list (map (result_warningCount env) (concat rss)))
                        (maxWarnings opts),
                   outputText = out, errorOutput = ''''\<rparr>"
      if "formatterWorld env opts showProgress (concat rss) (engineWorld env ?cs ?w2) = Some w5"
        and "eslint_loadFormatter env (format opts) w5 = (Some fm, w6)"
        and "formatter_format env fm (concat rss) w6 = (Some out, w7)"
      for w5 fm w6 out w7
      unfolding r lw
      using afterLoop_success [of env opts showProgress "concat rss" s3 w5 fm w6 out w7
          "length files" ?t0] that ws3
      by simp
    from e1 e2 e3 e4 e5 e6 show ?thesis by blast
  qed
  from a b c d e show ?thesis by blast
qed

theorem runWithAPI_batches_witness:
  "perform ImportESLint (import_eslint batchEnv) sampleState =
     (True, \<lparr>world = 1, trace = [ImportESLint]\<rparr>) \<and>
   (\<exists>opts s1.
      discoverFiles batchEnv [''src''] \<lparr>world = 1, trace = [ImportESLint]\<rparr> =
        (Some (opts, True, sampleFiles), s1) \<and>
      engineResults batchEnv (chunks BATCH_SIZE sampleFiles) (snd (Date_now batchEnv (world s1))) =
        Some [replicate 20 (0, 1), replicate 20 (0, 1), [(0, 1)]]) \<and>
   sampleFiles \<noteq> [] \<and> length sampleFiles = 41 \<and>
   map length (lintCalls (trace (snd (runWithAPI batchEnv [''src''] sampleState)))) =
     [20, 20, 1] \<and>
   concat (lintCalls (trace (snd (runWithAPI batchEnv [''src''] sampleState)))) = sampleFiles \<and>
   filter isProgressEvent (trace (snd (runWithAPI batchEnv [''src''] sampleState))) =
     [CreateProgressBar, ProgressStart 41, ProgressIncrement 20, ProgressIncrement 20,
      ProgressIncrement 1, ProgressStop] \<and>
   formatCalls (trace (snd (runWithAPI batchEnv [''src''] sampleState))) =
     [replicate 41 (0, 1)] \<and>
   fst (runWithAPI batchEnv [''src''] sampleState) =
     Some \<lparr>exitCode = 0, outputText = ''report'', errorOutput = ''''\<rparr>"
proof -
  let ?s0 = "\<lparr>world = 1, trace = [ImportESLint]\<rparr> :: (nat, int \<times> int, unit) state"
  let ?opts = "\<lparr>eslintOptions =
        \<lparr>fix_flag = None, overrideConfigFile = None, cache = None, cacheLocation = None,
         cacheStrategy = None, errorOnUnmatchedPattern = None, overrideConfig = None\<rparr>,
      maxWarnings = None, format = Str ''stylish'', extensions = DEFAULT_EXTENSIONS\<rparr>
      :: unit ParsedOptions"
  let ?s1 = "snd (discoverFiles batchEnv [''src''] ?s0)"
  let ?rss = "[replicate 20 (0, 1), replicate 20 (0, 1), [(0, 1)]] :: (int \<times> int) list list"
  let ?run = "runWithAPI batchEnv [''src''] sampleState"
  have h1: "perform ImportESLint (import_eslint batchEnv) sampleState = (True, ?s0)"
    by (simp add: perform_def batchEnv_def sampleEnv_def sampleState_def)
  have p: "parseESLintOptions (JSON_parse batchEnv) [''src''] = Inr ?opts"
    by (simp add: parseESLintOptions_def parseArg_def nextArg_def initialVars_def)
  have "fst (discoverFiles batchEnv [''src''] ?s0) = Some (?opts, True, sampleFiles)"
    unfolding discoverFiles_def p filterIgnored_batchEnv
    by (simp add: perform_def batchEnv_def sampleEnv_def shouldShowProgress_def ciVars_def
        truthy_def getFilesToLint_def Let_def)
  then have h2: "discoverFiles batchEnv [''src''] ?s0 = (Some (?opts, True, sampleFiles), ?s1)"
    by (simp add: prod_eq_iff)
  have n: "length sampleFiles = 41"
    by (simp add: sampleFiles_def)
  then have h3: "sampleFiles \<noteq> []" by auto
  have l: "map length (chunks BATCH_SIZE sampleFiles) = [20, 20, 1]"
    by code_simp
  have el: "eslint_lintFiles batchEnv = (\<lambda>fs w. (Some (map (\<lambda>f. (0, 1)) fs), Suc w))"
    by (simp add: batchEnv_def sampleEnv_def)
  have er: "engineResults batchEnv cs w = Some (map (\<lambda>c. replicate (length c) (0, 1)) cs)"
    for cs and w :: nat
    by (induction cs arbitrary: w) (simp_all add: el map_replicate_const)
  have h4: "engineResults batchEnv (chunks BATCH_SIZE sampleFiles)
      (snd (Date_now batchEnv (world ?s1))) = Some ?rss"
  proof -
    have "map (\<lambda>c. replicate (length c) (0, 1)) (chunks BATCH_SIZE sampleFiles) =
        map (\<lambda>n. replicate n (0, 1)) (map length (chunks BATCH_SIZE sampleFiles))"
      by (simp add: comp_def)
    also have "\<dots> = ?rss"
      unfolding l by (simp add: numeral_eq_Suc)
    finally show ?thesis
      unfolding er by simp
  qed
  have cr: "concat ?rss = replicate 41 (0, 1)"
    by (simp add: numeral_eq_Suc)
  have t: "trace sampleState = []" by (simp add: sampleState_def)
  have fw: "formatterWorld batchEnv ?opts True (concat ?rss) w = Some (Suc w)" for w
    by (simp add: formatterWorld_def batchEnv_def sampleEnv_def)
  have lf: "eslint_loadFormatter batchEnv (format ?opts) w = (Some (), Suc w)"
    and ff: "formatter_format batchEnv () (concat ?rss) w = (Some ''report'', Suc w)" for w
    by (simp_all add: batchEnv_def sampleEnv_def)
  have c: "calculateExitCode (sum_list (map (result_errorCount batchEnv) (concat ?rss)))
      (sum_list (map (result_warningCount batchEnv) (concat ?rss))) (maxWarnings ?opts) = 0"
    unfolding cr by (simp add: calculateExitCode_def batchEnv_def sampleEnv_def sum_list_replicate)
  note main = runWithAPI_batches [OF h1 h2 h3]
  note rest = main [THEN conjunct2, THEN conjunct2, THEN conjunct2, THEN conjunct2, THEN spec,
      THEN mp, OF h4]
  from rest [THEN conjunct1] have a: "lintCalls (trace (snd ?run)) = chunks BATCH_SIZE sampleFiles"
    using t by simp
  from rest [THEN conjunct2, THEN conjunct2, THEN conjunct1]
  have b: "filter isProgressEvent (trace (snd ?run)) =
      [CreateProgressBar, ProgressStart 41, ProgressIncrement 20, ProgressIncrement 20,
       ProgressIncrement 1, ProgressStop]"
    using t l n by simp
  note success = rest [THEN conjunct2, THEN conjunct2, THEN conjunct2, THEN conjunct2,
      THEN conjunct2, rule_format]
  have "fst ?run =
     Some \<lparr>exitCode = calculateExitCode (sum_list (map (result_errorCount batchEnv) (concat ?rss)))
      (sum_list (map (result_warningCount batchEnv) (concat ?rss))) (maxWarnings ?opts),
      outputText = ''report'', errorOutput = ''''\<rparr>"
    by (rule success) (intro conjI, rule fw, rule lf, rule ff)
  with c have r: "fst ?run = Some \<lparr>exitCode = 0, outputText = ''report'', errorOutput = ''''\<rparr>"
    by simp
  note returned = rest [THEN conjunct2, THEN conjunct2, THEN conjunct2, THEN conjunct2,
      THEN conjunct1, rule_format, OF r, THEN conjunct1]
  from returned have f: "formatCalls (trace (snd ?run)) = [replicate 41 (0, 1)]"
    using t cr by simp
  have a1: "map length (lintCalls (trace (snd ?run))) = [20, 20, 1]"
    unfolding a by (rule l)
  have a2: "concat (lintCalls (trace (snd ?run))) = sampleFiles"
    unfolding a by (rule main [THEN conjunct1])
  have ex: "\<exists>opts s1.
      discoverFiles batchEnv [''src''] \<lparr>world = 1, trace = [ImportESLint]\<rparr> =
        (Some (opts, True, sampleFiles), s1) \<and>
      engineResults batchEnv (chunks BATCH_SIZE sampleFiles) (snd (Date_now batchEnv (world s1))) =
        Some [replicate 20 (0, 1), replicate 20 (0, 1), [(0, 1)]]"
    by (intro exI conjI) (rule h2, rule h4)
  show ?thesis
    by (intro conjI h1 ex h3 n a1 a2 b f r)
qed


subsection \<open>Supported options in the form \<open>--name=value\<close>\<close>

lemma spec_lintChunks_extends:
  "\<exists>evs. trace (snd (spec_lintChunks env cs acc s)) = trace s @ evs"
proof (induction cs arbitrary: acc s)
  case Nil
  show ?case by simp
next
  case (Cons c cs)
  let ?s' = "\<lparr>world = snd (eslint_lintFiles env c (world s)), trace = trace s @ [LintFiles c]\<rparr>"
  show ?case
  proof (cases "fst (eslint_lintFiles env c (world s))")
    case None
    then have "trace (snd (spec_lintChunks env (c # cs) acc s)) = trace s @ [LintFiles c]"
      by (simp add: spec_lintChunks_Cons del: spec_lintChunks.simps(2))
    then show ?thesis by blast
  next
    case (Some r)
    from Cons [of "acc @ r" "emit (ProgressIncrement (length c)) ?s'"] obtain evs where
      "trace (snd (spec_lintChunks env cs (acc @ r) (emit (ProgressIncrement (length c)) ?s'))) =
         trace (emit (ProgressIncrement (length c)) ?s') @ evs" by blast
    with Some have "trace (snd (spec_lintChunks env (c # cs) acc s)) =
        trace s @ (LintFiles c # ProgressIncrement (length c) # evs)"
      by (simp add: spec_lintChunks_Cons trace_emit del: spec_lintChunks.simps(2))
    then show ?thesis by blast
  qed
qed

lemma lintWithProgress_extends:
  "\<exists>evs. trace (snd (lintWithProgress env opts sp files s)) = trace s @ evs"
proof -
  let ?s2 = "\<lparr>world = snd (Date_now env (world s)),
             trace = trace s @ [CreateProgressBar, ProgressStart (length files), DateNow]\<rparr>"
  let ?l = "lintBatches env files 0 [] ?s2"
  from spec_lintChunks_extends [of env "chunks BATCH_SIZE files" "[]" ?s2] obtain evs where
    t: "trace (snd ?l) =
      trace s @ [CreateProgressBar, ProgressStart (length files), DateNow] @ evs"
    by (auto simp: lintBatches_spec)
  show ?thesis
  proof (cases "fst ?l")
    case None
    then have "snd (lintWithProgress env opts sp files s) = snd ?l"
      unfolding lintWithProgress_eq by (cases ?l) simp
    with t show ?thesis by simp
  next
    case (Some rs)
    let ?al = "afterLoop env opts sp (length files) (fst (Date_now env (world s))) rs (snd ?l)"
    from Some have "lintWithProgress env opts sp files s = ?al"
      unfolding lintWithProgress_eq by (cases ?l) simp
    moreover from afterLoop_after [of env opts sp "length files" "fst (Date_now env (world s))"
        rs "snd ?l"] obtain evs' where
      "trace (snd ?al) = trace (snd ?l) @ ProgressStop # evs'" by blast
    ultimately show ?thesis using t by simp
  qed
qed

lemma tryBody_extends:
  "\<exists>evs. trace (snd (tryBody env args s)) = trace s @ evs"
proof -
  from discoverFiles_quiet [of env args s] obtain evs1 where
    t1: "trace (snd (discoverFiles env args s)) = trace s @ evs1" by blast
  show ?thesis
  proof (cases "discoverFiles env args s")
    case (Pair a s')
    show ?thesis
    proof (cases a)
      case None
      with Pair t1 show ?thesis by (simp add: tryBody_def)
    next
      case (Some x)
      obtain opts sp files where x: "x = (opts, sp, files)" by (cases x)
      show ?thesis
      proof (cases "files = []")
        case True
        from lintPatterns_trace [of env "extractPatterns args" "format opts" "maxWarnings opts" s']
        obtain evs2 where
          "trace (snd (lintPatterns env (extractPatterns args) (format opts) (maxWarnings opts) s')) =
             trace s' @ LintFiles (extractPatterns args) # evs2" by blast
        with Pair Some x True t1 show ?thesis by (simp add: tryBody_def)
      next
        case False
        from lintWithProgress_extends [of env opts sp files s'] obtain evs2 where
          "trace (snd (lintWithProgress env opts sp files s')) = trace s' @ evs2" by blast
        with Pair Some x False t1 show ?thesis by (simp add: tryBody_def)
      qed
    qed
  qed
qed

text \<open>The first thing \<open>runWithAPI\<close> does is to load the engine.\<close>

lemma runWithAPI_starts:
  "\<exists>evs. trace (snd (runWithAPI env args s)) = trace s @ ImportESLint # evs"
proof -
  let ?s0 = "\<lparr>world = snd (import_eslint env (world s)), trace = trace s @ [ImportESLint]\<rparr>"
  have p: "perform ImportESLint (import_eslint env) s = (fst (import_eslint env (world s)), ?s0)"
    by (simp add: perform_eq)
  show ?thesis
  proof (cases "fst (import_eslint env (world s))")
    case False
    then show ?thesis by (simp add: runWithAPI_def p)
  next
    case True
    from tryBody_extends [of env args ?s0] obtain evs where
      t: "trace (snd (tryBody env args ?s0)) = trace s @ ImportESLint # evs" by auto
    show ?thesis
    proof (cases "tryBody env args ?s0")
      case (Pair a s')
      with t have t': "trace s' = trace s @ ImportESLint # evs" by simp
      show ?thesis
      proof (cases a)
        case None
        with True Pair t' show ?thesis by (simp add: runWithAPI_def p trace_emit)
      next
        case (Some r)
        with True Pair t' show ?thesis by (simp add: runWithAPI_def p)
      qed
    qed
  qed
qed

lemma runESLint_supported:
  assumes "findUnsupportedOptions args = []"
  shows "runESLint env args s =
     (case runWithAPI env args s of
        (Some result, s') \<Rightarrow> (exitCode result, writeResult result s')
      | (None, s') \<Rightarrow>
          (case runWithSpawn env args s' of
             (spawnResult, s'') \<Rightarrow> (exitCode spawnResult, writeResult spawnResult s'')))"
  using assms by (simp add: runESLint_def)

lemma runESLint_supported_starts:
  assumes "findUnsupportedOptions args = []"
  shows "\<exists>evs. trace (snd (runESLint env args s)) = trace s @ ImportESLint # evs"
proof -
  from runWithAPI_starts [of env args s] obtain evs where
    t: "trace (snd (runWithAPI env args s)) = trace s @ ImportESLint # evs" by blast
  show ?thesis
  proof (cases "runWithAPI env args s")
    case (Pair a s')
    with t have t': "trace s' = trace s @ ImportESLint # evs" by simp
    show ?thesis
    proof (cases a)
      case None
      with Pair t' show ?thesis
        unfolding runESLint_supported [OF assms]
        by (simp add: trace_writeResult runWithSpawn_eq)
    next
      case (Some r)
      with Pair t' show ?thesis
        unfolding runESLint_supported [OF assms]
        by (simp add: trace_writeResult)
    qed
  qed
qed


text \<open>
  C10, as amended.  Let a token in \<open>--name=value\<close> form whose name is in one of the two
  supported vocabularies be read as an option (the tokens before it leave no option waiting
  for its value).  Then \<open>findUnsupportedOptions\<close> does not report its name and returns what
  it returns without the token; \<open>parseESLintOptions\<close> gives the same result, a record or
  the \<open>TypeError\<close>, as for the token sequence without the token: the value is never
  applied; and when nothing else in the token sequence is unsupported, \<open>runESLint\<close> takes
  the enhanced path: it writes no warning, its first action is to load the engine, it runs
  \<open>runWithAPI\<close> on the arguments and relays its result, and it runs the fallback only when
  \<open>runWithAPI\<close> returns \<open>None\<close>.
\<close>

theorem equals_form_ignored:
  assumes "optionPosition pre"
    and "includesChar tok CHR ''=''" and "inVocabulary (optionNameOf tok)"
  shows "optionNameOf tok \<notin> set (findUnsupportedOptions (pre @ tok # post)) \<and>
         findUnsupportedOptions (pre @ tok # post) = findUnsupportedOptions (pre @ post) \<and>
         parseESLintOptions jp (pre @ tok # post) = parseESLintOptions jp (pre @ post) \<and>
         (findUnsupportedOptions (pre @ post) = [] \<longrightarrow>
            runESLint env (pre @ tok # post) s =
              (case runWithAPI env (pre @ tok # post) s of
                 (Some result, s') \<Rightarrow> (exitCode result, writeResult result s')
               | (None, s') \<Rightarrow>
                   (case runWithSpawn env (pre @ tok # post) s' of
                      (spawnResult, s'') \<Rightarrow>
                        (exitCode spawnResult, writeResult spawnResult s''))) \<and>
            (\<exists>evs. trace (snd (runESLint env (pre @ tok # post) s)) =
               trace s @ ImportESLint # evs))"
proof -
  note t = supported_eq_token [OF assms(2,3)]
  have a: "optionNameOf tok \<notin> set (findUnsupportedOptions (pre @ tok # post))"
    using spec_unsupported_not_supported [of "optionNameOf tok" "pre @ tok # post"] assms(3)
    by (auto simp: findUnsupportedOptions_def findLoop_spec)
  have b: "findUnsupportedOptions (pre @ tok # post) = findUnsupportedOptions (pre @ post)"
    using spec_unsupported_remove [OF t(1,2) assms(1), of post]
    by (simp add: findUnsupportedOptions_def findLoop_spec)
  have c: "parseESLintOptions jp (pre @ tok # post) = parseESLintOptions jp (pre @ post)"
    using parseLoop_remove_eq_token [OF assms(1) t(3), of jp post initialVars]
    by (simp add: parseESLintOptions_def)
  have d: "runESLint env (pre @ tok # post) s =
              (case runWithAPI env (pre @ tok # post) s of
                 (Some result, s') \<Rightarrow> (exitCode result, writeResult result s')
               | (None, s') \<Rightarrow>
                   (case runWithSpawn env (pre @ tok # post) s' of
                      (spawnResult, s'') \<Rightarrow>
                        (exitCode spawnResult, writeResult spawnResult s''))) \<and>
            (\<exists>evs. trace (snd (runESLint env (pre @ tok # post) s)) =
               trace s @ ImportESLint # evs)"
    if "findUnsupportedOptions (pre @ post) = []"
  proof -
    from that b have u: "findUnsupportedOptions (pre @ tok # post) = []" by simp
    from runESLint_supported [OF u, of env s] runESLint_supported_starts [OF u, of env s]
    show ?thesis by blast
  qed
  from a b c d show ?thesis by blast
qed

theorem equals_form_ignored_witness:
  "optionPosition [''src'', ''-c'', ''a.js''] \<and> includesChar ''--format=json'' CHR ''='' \<and>
   inVocabulary (optionNameOf ''--format=json'') \<and>
   findUnsupportedOptions [''src'', ''-c'', ''a.js'', ''--fix''] = [] \<and>
   findUnsupportedOptions [''src'', ''-c'', ''a.js'', ''--format=json'', ''--fix''] = [] \<and>
   map_sum id format
     (parseESLintOptions (\<lambda>_. None :: unit option)
        [''src'', ''-c'', ''a.js'', ''--format=json'', ''--fix'']) = Inr (Str ''stylish'') \<and>
   fst (runESLint sampleEnv [''src'', ''-c'', ''a.js'', ''--format=json'', ''--fix'']
     sampleState) = 0 \<and>
   trace (snd (runESLint sampleEnv [''src'', ''-c'', ''a.js'', ''--format=json'', ''--fix'']
     sampleState)) =
     [ImportESLint,
      NewESLint \<lparr>fix_flag = Some True, overrideConfigFile = Some (Str ''a.js''), cache = None,
        cacheLocation = None, cacheStrategy = None, errorOnUnmatchedPattern = None,
        overrideConfig = None\<rparr>,
      StderrWrite DiscoveringFiles,
      Globby (globPatternsOf [''src''] DEFAULT_EXTENSIONS),
      StderrWrite ClearDiscovering,
      LintFiles [''src''], LoadFormatter (Str ''stylish''), Format [(0, 1)],
      StdoutWrite ''report'']"
proof -
  let ?args = "[''src'', ''-c'', ''a.js'', ''--format=json'', ''--fix'']"
  let ?eo = "\<lparr>fix_flag = Some True, overrideConfigFile = Some (Str ''a.js''), cache = None,
        cacheLocation = None, cacheStrategy = None, errorOnUnmatchedPattern = None,
        overrideConfig = None\<rparr> :: unit ESLintOptions"
  let ?opts = "\<lparr>eslintOptions = ?eo,
      maxWarnings = None, format = Str ''stylish'', extensions = DEFAULT_EXTENSIONS\<rparr>
      :: unit ParsedOptions"
  have h1: "optionPosition [''src'', ''-c'', ''a.js'']"
    by (simp add: takesValue_def SUPPORTED_OPTIONS_WITH_VALUES_def)
  have h2: "includesChar ''--format=json'' CHR ''=''"
    by (simp add: includesChar_def)
  have h3: "inVocabulary (optionNameOf ''--format=json'')"
    by (simp add: inVocabulary_def optionNameOf_def includesChar_def
        SUPPORTED_FLAGS_def SUPPORTED_OPTIONS_WITH_VALUES_def)
  have f: "findUnsupportedOptions ([''src'', ''-c'', ''a.js''] @ [''--fix'']) = []"
    by (simp add: findUnsupportedOptions_def startsWith_def optionNameOf_def includesChar_def
        SUPPORTED_FLAGS_def SUPPORTED_OPTIONS_WITH_VALUES_def)
  have p0: "parseESLintOptions (JSON_parse sampleEnv) [''src'', ''-c'', ''a.js'', ''--fix''] =
      Inr ?opts"
    by (simp add: parseESLintOptions_def parseArg_def nextArg_def initialVars_def)
  note main = equals_form_ignored [OF h1 h2 h3, of "[''--fix'']" "JSON_parse sampleEnv"
      sampleEnv sampleState]
  from main have u: "findUnsupportedOptions ?args = []"
    using f by simp
  from main have p: "parseESLintOptions (JSON_parse sampleEnv) ?args = Inr ?opts"
    using p0 by simp
  have jp: "JSON_parse sampleEnv = (\<lambda>_. None)"
    by (simp add: sampleEnv_def)
  from p have p': "map_sum id format (parseESLintOptions (\<lambda>_. None :: unit option) ?args) =
      Inr (Str ''stylish'')"
    unfolding jp by simp
  have ps: "extractPatterns ?args = [''src'']"
    by (simp add: extractPatterns_def startsWith_def optionsWithValues_def)
  have api: "runWithAPI sampleEnv ?args sampleState =
      (Some \<lparr>exitCode = 0, outputText = ''report'', errorOutput = ''''\<rparr>,
       \<lparr>world = 6,
        trace = [ImportESLint, NewESLint ?eo, StderrWrite DiscoveringFiles,
          Globby (globPatternsOf [''src''] DEFAULT_EXTENSIONS), StderrWrite ClearDiscovering,
          LintFiles [''src''], LoadFormatter (Str ''stylish''), Format [(0, 1)]]\<rparr>)"
    unfolding runWithAPI_def tryBody_def discoverFiles_def p ps
    by (simp add: perform_def sampleEnv_def sampleState_def shouldShowProgress_def ciVars_def
        truthy_def getFilesToLint_def Let_def lintPatterns_def formatAndExit_def emit_def
        calculateExitCode_def)
  note step = main [THEN conjunct2, THEN conjunct2, THEN conjunct2, THEN mp, OF f, THEN conjunct1]
  have ap: "[''src'', ''-c'', ''a.js''] @ ''--format=json'' # [''--fix''] = ?args"
    by simp
  from step have r: "runESLint sampleEnv ?args sampleState =
      (0, \<lparr>world = 6,
        trace = [ImportESLint, NewESLint ?eo, StderrWrite DiscoveringFiles,
          Globby (globPatternsOf [''src''] DEFAULT_EXTENSIONS), StderrWrite ClearDiscovering,
          LintFiles [''src''], LoadFormatter (Str ''stylish''), Format [(0, 1)],
          StdoutWrite ''report'']\<rparr>)"
    unfolding ap api by (simp add: writeResult_def emit_def)
  have r1: "fst (runESLint sampleEnv ?args sampleState) = 0"
    and r2: "trace (snd (runESLint sampleEnv ?args sampleState)) =
       [ImportESLint, NewESLint ?eo, StderrWrite DiscoveringFiles,
          Globby (globPatternsOf [''src''] DEFAULT_EXTENSIONS), StderrWrite ClearDiscovering,
          LintFiles [''src''], LoadFormatter (Str ''stylish''), Format [(0, 1)],
          StdoutWrite ''report'']"
    unfolding r by simp_all
  have f': "findUnsupportedOptions [''src'', ''-c'', ''a.js'', ''--fix''] = []"
    using f by simp
  show ?thesis
    by (intro conjI h1 h2 h3 f' u p' r1 r2)
qed

text \<open>
  C10 as it is written fails: in \<open>--config --format=json\<close> the token \<open>--format=json\<close> is
  not reported, and it is applied, as the path of the configuration file; without it the
  path is \<open>undefined\<close>.
\<close>

theorem equals_form_counterexample:
  "includesChar ''--format=json'' CHR ''='' \<and> inVocabulary (optionNameOf ''--format=json'') \<and>
   findUnsupportedOptions ([''--config''] @ ''--format=json'' # []) = [] \<and>
   map_sum id (overrideConfigFile \<circ> eslintOptions)
     (parseESLintOptions (\<lambda>_. None :: unit option) ([''--config''] @ ''--format=json'' # [])) =
     Inr (Some (Str ''--format=json'')) \<and>
   map_sum id (overrideConfigFile \<circ> eslintOptions)
     (parseESLintOptions (\<lambda>_. None :: unit option) ([''--config''] @ [])) =
     Inr (Some Undefined) \<and>
   parseESLintOptions (\<lambda>_. None :: unit option) ([''--config''] @ ''--format=json'' # []) \<noteq>
   parseESLintOptions (\<lambda>_. None :: unit option) ([''--config''] @ [])"
proof -
  have a: "map_sum id (overrideConfigFile \<circ> eslintOptions)
     (parseESLintOptions (\<lambda>_. None :: unit option) ([''--config''] @ ''--format=json'' # [])) =
     Inr (Some (Str ''--format=json''))"
    by (simp add: parseESLintOptions_def parseArg_def nextArg_def initialVars_def)
  have b: "map_sum id (overrideConfigFile \<circ> eslintOptions)
     (parseESLintOptions (\<lambda>_. None :: unit option) ([''--config''] @ [])) =
     Inr (Some Undefined)"
    by (simp add: parseESLintOptions_def parseArg_def nextArg_def initialVars_def)
  have c: "parseESLintOptions (\<lambda>_. None :: unit option) ([''--config''] @ ''--format=json'' # []) \<noteq>
   parseESLintOptions (\<lambda>_. None :: unit option) ([''--config''] @ [])"
    using a b by auto
  have d: "includesChar ''--format=json'' CHR ''='' \<and>
      inVocabulary (optionNameOf ''--format=json'') \<and>
      findUnsupportedOptions ([''--config''] @ ''--format=json'' # []) = []"
    by (simp add: findUnsupportedOptions_def startsWith_def optionNameOf_def includesChar_def
        inVocabulary_def SUPPORTED_FLAGS_def SUPPORTED_OPTIONS_WITH_VALUES_def)
  from a b c d show ?thesis by blast
qed

end
